theory Spec2Isabelle
  imports Complex_Main "HOL-Library.Log_Nat"
begin

section \<open>JavaScript values\<close>

subsection \<open>Strings\<close>

text \<open>
  A JavaScript string is a sequence of UTF-16 code units; each element of a \<open>jsstring\<close>
  is one code unit. \<open>js\<close> turns an ASCII literal into its code units.
\<close>

type_synonym jsstring = "nat list"

definition js :: "string \<Rightarrow> jsstring" where
  "js s = map of_char s"

text \<open>\<open>s.split(sep)\<close> for a one-unit separator; the result is never empty.\<close>

fun split :: "nat \<Rightarrow> jsstring \<Rightarrow> jsstring list" where
  "split sep [] = [[]]"
| "split sep (c # cs) =
     (if c = sep then [] # split sep cs
      else (case split sep cs of [] \<Rightarrow> [[c]] | p # ps \<Rightarrow> (c # p) # ps))"

text \<open>Array destructuring \<open>[k, v] = a\<close> reads index 0 and 1; a missing index is \<open>undefined\<close>.\<close>

fun at_index :: "'a list \<Rightarrow> nat \<Rightarrow> 'a option" where
  "at_index [] n = None"
| "at_index (a # as) 0 = Some a"
| "at_index (a # as) (Suc n) = at_index as n"

definition startsWith :: "jsstring \<Rightarrow> jsstring \<Rightarrow> bool" where
  "startsWith s p \<longleftrightarrow> take (length p) s = p"

definition endsWith :: "jsstring \<Rightarrow> jsstring \<Rightarrow> bool" where
  "endsWith s p \<longleftrightarrow> length p \<le> length s \<and> drop (length s - length p) s = p"

text \<open>\<open>a.toString()\<close> of an array of strings joins them with commas.\<close>

fun toString_array :: "jsstring list \<Rightarrow> jsstring" where
  "toString_array [] = []"
| "toString_array [a] = a"
| "toString_array (a # b # bs) = a @ js '','' @ toString_array (b # bs)"

text \<open>
  The string iterator behind \<open>for (let v of text)\<close> yields one string per code point:
  a high surrogate followed by a low surrogate comes out as one two-unit string, every
  other code unit on its own.
\<close>

definition is_high_surrogate :: "nat \<Rightarrow> bool" where
  "is_high_surrogate u \<longleftrightarrow> 55296 \<le> u \<and> u \<le> 56319"

definition is_low_surrogate :: "nat \<Rightarrow> bool" where
  "is_low_surrogate u \<longleftrightarrow> 56320 \<le> u \<and> u \<le> 57343"

fun string_iterator :: "jsstring \<Rightarrow> jsstring list" where
  "string_iterator [] = []"
| "string_iterator [u] = [[u]]"
| "string_iterator (u # w # us) =
     (if is_high_surrogate u \<and> is_low_surrogate w then [u, w] # string_iterator us
      else [u] # string_iterator (w # us))"

text \<open>\<open>v.charCodeAt(0)\<close>: the first code unit, \<open>None\<close> standing for the \<open>NaN\<close> of an empty string.\<close>

definition charCodeAt0 :: "jsstring \<Rightarrow> nat option" where
  "charCodeAt0 v = (case v of [] \<Rightarrow> None | u # _ \<Rightarrow> Some u)"

text \<open>\<open>charCode > n\<close>; a comparison with \<open>NaN\<close> is false.\<close>

definition code_gt :: "nat option \<Rightarrow> nat \<Rightarrow> bool" where
  "code_gt c n = (case c of None \<Rightarrow> False | Some u \<Rightarrow> n < u)"

subsection \<open>Numbers\<close>

text \<open>
  A JavaScript number is an IEEE 754 double: \<open>NaN\<close>, an infinity, or a finite value, which
  is a rational. The sign of zero is not modelled; nothing below divides by a zero that
  was computed or prints one.
\<close>

datatype jsnum = NaN | NInf | Fin rat | PInf

text \<open>
  Rounding to the nearest double, ties to even. \<open>binade x\<close> is the exponent \<open>e\<close> with
  \<open>2\<^sup>e \<le> \<bar>x\<bar> < 2\<^sup>e\<^sup>+\<^sup>1\<close>; doubles carry 53 significant bits down to the
  exponent \<open>-1022\<close>, below which the spacing stays \<open>2\<^sup>-\<^sup>1\<^sup>0\<^sup>7\<^sup>4\<close>; a result of
  magnitude \<open>2\<^sup>1\<^sup>0\<^sup>2\<^sup>4\<close> or more is an infinity.
\<close>

definition rhe :: "rat \<Rightarrow> int" where
  "rhe y = (if y - of_int \<lfloor>y\<rfloor> < 1 / 2 then \<lfloor>y\<rfloor>
            else if 1 / 2 < y - of_int \<lfloor>y\<rfloor> then \<lfloor>y\<rfloor> + 1
            else if even \<lfloor>y\<rfloor> then \<lfloor>y\<rfloor> else \<lfloor>y\<rfloor> + 1)"

definition binade :: "rat \<Rightarrow> int" where
  "binade x = (if 1 \<le> \<bar>x\<bar> then bitlen \<lfloor>\<bar>x\<bar>\<rfloor> - 1 else - bitlen (\<lceil>1 / \<bar>x\<bar>\<rceil> - 1))"

definition ulp :: "rat \<Rightarrow> rat" where
  "ulp x = 2 powi (max (binade x) (- 1022) - 52)"

definition flr :: "rat \<Rightarrow> rat" where
  "flr x = (if x = 0 then 0 else of_int (rhe (x / ulp x)) * ulp x)"

definition ovf :: "rat \<Rightarrow> jsnum" where
  "ovf r = (if 2 ^ 1024 \<le> r then PInf else if r \<le> - (2 ^ 1024) then NInf else Fin r)"

definition fl :: "rat \<Rightarrow> jsnum" where
  "fl x = ovf (flr x)"

text \<open>A decimal literal of the source denotes the double nearest to it.\<close>

definition num_lit :: "rat \<Rightarrow> jsnum" where
  "num_lit q = fl q"

text \<open>The comparisons \<open><\<close>, \<open><=\<close> and \<open>===\<close>: all false when an operand is \<open>NaN\<close>.\<close>

fun js_lt :: "jsnum \<Rightarrow> jsnum \<Rightarrow> bool" where
  "js_lt NaN _ = False"
| "js_lt _ NaN = False"
| "js_lt (Fin a) (Fin b) = (a < b)"
| "js_lt PInf _ = False"
| "js_lt _ NInf = False"
| "js_lt NInf _ = True"
| "js_lt _ PInf = True"

fun js_le :: "jsnum \<Rightarrow> jsnum \<Rightarrow> bool" where
  "js_le NaN _ = False"
| "js_le _ NaN = False"
| "js_le (Fin a) (Fin b) = (a \<le> b)"
| "js_le NInf _ = True"
| "js_le _ PInf = True"
| "js_le PInf _ = False"
| "js_le _ NInf = False"

definition js_eq :: "jsnum \<Rightarrow> jsnum \<Rightarrow> bool" where
  "js_eq a b \<longleftrightarrow> a \<noteq> NaN \<and> b \<noteq> NaN \<and> a = b"

text \<open>Truthiness of a number (\<open>0\<close> and \<open>NaN\<close> are falsy) and of a value that may be \<open>undefined\<close>.\<close>

definition truthy_num :: "jsnum \<Rightarrow> bool" where
  "truthy_num a \<longleftrightarrow> a \<noteq> NaN \<and> a \<noteq> Fin 0"

definition truthy_opt :: "jsnum option \<Rightarrow> bool" where
  "truthy_opt a = (case a of None \<Rightarrow> False | Some n \<Rightarrow> truthy_num n)"

fun jsign :: "jsnum \<Rightarrow> int" where
  "jsign NaN = 0"
| "jsign NInf = - 1"
| "jsign PInf = 1"
| "jsign (Fin a) = (if a < 0 then - 1 else if a = 0 then 0 else 1)"

fun fneg :: "jsnum \<Rightarrow> jsnum" where
  "fneg NaN = NaN"
| "fneg NInf = PInf"
| "fneg PInf = NInf"
| "fneg (Fin a) = Fin (- a)"

fun fadd :: "jsnum \<Rightarrow> jsnum \<Rightarrow> jsnum" where
  "fadd NaN _ = NaN"
| "fadd _ NaN = NaN"
| "fadd (Fin a) (Fin b) = fl (a + b)"
| "fadd PInf NInf = NaN"
| "fadd NInf PInf = NaN"
| "fadd PInf _ = PInf"
| "fadd _ PInf = PInf"
| "fadd NInf _ = NInf"
| "fadd _ NInf = NInf"

definition fsub :: "jsnum \<Rightarrow> jsnum \<Rightarrow> jsnum" where
  "fsub a b = fadd a (fneg b)"

fun fmul :: "jsnum \<Rightarrow> jsnum \<Rightarrow> jsnum" where
  "fmul NaN _ = NaN"
| "fmul _ NaN = NaN"
| "fmul (Fin a) (Fin b) = fl (a * b)"
| "fmul a b = (if jsign a * jsign b = 0 then NaN
               else if 0 < jsign a * jsign b then PInf else NInf)"

fun fdiv :: "jsnum \<Rightarrow> jsnum \<Rightarrow> jsnum" where
  "fdiv NaN _ = NaN"
| "fdiv _ NaN = NaN"
| "fdiv (Fin a) (Fin b) =
     (if b = 0 then (if a = 0 then NaN else if 0 < a then PInf else NInf) else fl (a / b))"
| "fdiv (Fin a) _ = Fin 0"
| "fdiv a (Fin b) = (if 0 \<le> b then a else fneg a)"
| "fdiv _ _ = NaN"

text \<open>\<open>Math.round\<close>: the nearest integer, a tie going up.\<close>

fun Math_round :: "jsnum \<Rightarrow> jsnum" where
  "Math_round (Fin a) = Fin (of_int \<lfloor>a + 1 / 2\<rfloor>)"
| "Math_round a = a"

text \<open>
  \<open>Number.parseInt(v, 10)\<close>: leading white space is skipped, then an optional sign, then
  the longest run of decimal digits, whose value is rounded to a double; with no digit the
  result is \<open>NaN\<close>, and so it is for \<open>undefined\<close>.
\<close>

definition StrWhiteSpaceChar :: "nat \<Rightarrow> bool" where
  "StrWhiteSpaceChar c \<longleftrightarrow>
     c \<in> {9, 10, 11, 12, 13, 32, 160, 5760, 8232, 8233, 8239, 8287, 12288, 65279}
     \<or> (8192 \<le> c \<and> c \<le> 8202)"

definition is_digit :: "nat \<Rightarrow> bool" where
  "is_digit c \<longleftrightarrow> 48 \<le> c \<and> c \<le> 57"

definition digits_value :: "jsstring \<Rightarrow> int" where
  "digits_value z = foldl (\<lambda>a c. a * 10 + (int c - 48)) 0 z"

definition parseInt :: "jsstring option \<Rightarrow> jsnum" where
  "parseInt v =
     (case v of
        None \<Rightarrow> NaN
      | Some s \<Rightarrow>
          (case dropWhile StrWhiteSpaceChar s of
             [] \<Rightarrow> NaN
           | c # r \<Rightarrow>
               (if c = 45 then
                  (if takeWhile is_digit r = [] then NaN
                   else fl (of_int (- digits_value (takeWhile is_digit r))))
                else if c = 43 then
                  (if takeWhile is_digit r = [] then NaN
                   else fl (of_int (digits_value (takeWhile is_digit r))))
                else
                  (if takeWhile is_digit (c # r) = [] then NaN
                   else fl (of_int (digits_value (takeWhile is_digit (c # r))))))))"

subsection \<open>Decoding a base64 value as UTF-8 text\<close>

text \<open>
  \<open>Buffer.from(v, 'base64').toString('utf-8')\<close> belongs to the platform. The validation
  below takes it as a parameter; \<open>base64_utf8\<close> models the platform's decoder: of each
  code unit the low byte is read, characters outside the alphabet are skipped, \<open>=\<close> ends
  the input, and a byte sequence that is not UTF-8 gives U+FFFD.
\<close>

definition b64_value :: "nat \<Rightarrow> nat option" where
  "b64_value c =
     (if 65 \<le> c \<and> c \<le> 90 then Some (c - 65)
      else if 97 \<le> c \<and> c \<le> 122 then Some (c - 71)
      else if 48 \<le> c \<and> c \<le> 57 then Some (c + 4)
      else if c = 43 \<or> c = 45 then Some 62
      else if c = 47 \<or> c = 95 then Some 63
      else None)"

fun b64_sextets :: "jsstring \<Rightarrow> nat list" where
  "b64_sextets [] = []"
| "b64_sextets (c # cs) =
     (if c mod 256 = 61 then []
      else (case b64_value (c mod 256) of
              None \<Rightarrow> b64_sextets cs
            | Some n \<Rightarrow> n # b64_sextets cs))"

fun b64_bytes :: "nat list \<Rightarrow> nat list" where
  "b64_bytes (a # b # c # d # r) =
     (a * 4 + b div 16) # ((b mod 16) * 16 + c div 4) # ((c mod 4) * 64 + d) # b64_bytes r"
| "b64_bytes [a, b, c] = [a * 4 + b div 16, (b mod 16) * 16 + c div 4]"
| "b64_bytes [a, b] = [a * 4 + b div 16]"
| "b64_bytes _ = []"

definition utf8_cont :: "nat \<Rightarrow> bool" where
  "utf8_cont b \<longleftrightarrow> 128 \<le> b \<and> b \<le> 191"

definition utf8_second :: "nat \<Rightarrow> nat \<Rightarrow> bool" where
  "utf8_second b0 b1 \<longleftrightarrow>
     (if b0 = 224 then 160 else if b0 = 240 then 144 else 128) \<le> b1
     \<and> b1 \<le> (if b0 = 237 then 159 else if b0 = 244 then 143 else 191)"

definition utf16_units :: "nat \<Rightarrow> jsstring" where
  "utf16_units cp =
     (if cp < 65536 then [cp]
      else [55296 + (cp - 65536) div 1024, 56320 + (cp - 65536) mod 1024])"

fun utf8_decode :: "nat list \<Rightarrow> jsstring" where
  "utf8_decode [] = []"
| "utf8_decode [b0] = (if b0 < 128 then [b0] else [65533])"
| "utf8_decode [b0, b1] =
     (if b0 < 128 then b0 # utf8_decode [b1]
      else if 194 \<le> b0 \<and> b0 \<le> 223 \<and> utf8_cont b1 then [(b0 - 192) * 64 + (b1 - 128)]
      else if 224 \<le> b0 \<and> b0 \<le> 244 \<and> utf8_second b0 b1 then [65533]
      else 65533 # utf8_decode [b1])"
| "utf8_decode [b0, b1, b2] =
     (if b0 < 128 then b0 # utf8_decode [b1, b2]
      else if 194 \<le> b0 \<and> b0 \<le> 223 \<and> utf8_cont b1
        then ((b0 - 192) * 64 + (b1 - 128)) # utf8_decode [b2]
      else if 224 \<le> b0 \<and> b0 \<le> 239 \<and> utf8_second b0 b1 then
        (if utf8_cont b2 then [(b0 - 224) * 4096 + (b1 - 128) * 64 + (b2 - 128)]
         else 65533 # utf8_decode [b2])
      else if 240 \<le> b0 \<and> b0 \<le> 244 \<and> utf8_second b0 b1 then
        (if utf8_cont b2 then [65533] else 65533 # utf8_decode [b2])
      else 65533 # utf8_decode [b1, b2])"
| "utf8_decode (b0 # b1 # b2 # b3 # r) =
     (if b0 < 128 then b0 # utf8_decode (b1 # b2 # b3 # r)
      else if 194 \<le> b0 \<and> b0 \<le> 223 \<and> utf8_cont b1
        then ((b0 - 192) * 64 + (b1 - 128)) # utf8_decode (b2 # b3 # r)
      else if 224 \<le> b0 \<and> b0 \<le> 239 \<and> utf8_second b0 b1 then
        (if utf8_cont b2
         then ((b0 - 224) * 4096 + (b1 - 128) * 64 + (b2 - 128)) # utf8_decode (b3 # r)
         else 65533 # utf8_decode (b2 # b3 # r))
      else if 240 \<le> b0 \<and> b0 \<le> 244 \<and> utf8_second b0 b1 then
        (if utf8_cont b2 then
           (if utf8_cont b3
            then utf16_units ((b0 - 240) * 262144 + (b1 - 128) * 4096 + (b2 - 128) * 64
                              + (b3 - 128)) @ utf8_decode r
            else 65533 # utf8_decode (b3 # r))
         else 65533 # utf8_decode (b2 # b3 # r))
      else 65533 # utf8_decode (b1 # b2 # b3 # r))"

definition base64_utf8 :: "jsstring \<Rightarrow> jsstring" where
  "base64_utf8 v = utf8_decode (b64_bytes (b64_sextets v))"

section \<open>Errors\<close>

datatype error = InvalidArgument jsstring

section \<open>The watermark action\<close>

text \<open>
  The options record of the source, field by field (\<open>opt.x\<close> is \<open>opt_x opt\<close>). An optional
  field is \<open>None\<close> when \<open>undefined\<close>; \<open>color\<close> is assigned the second piece of a token
  as it is, which is \<open>undefined\<close> when the token has no underscore.
\<close>

record WatermarkOpts =
  opt_text :: jsstring
  opt_t :: jsnum
  opt_g :: jsstring
  opt_fill :: bool
  opt_rotate :: jsnum
  opt_size :: jsnum
  opt_color :: "jsstring option"
  opt_image :: jsstring
  opt_auto :: bool
  opt_x :: "jsnum option"
  opt_y :: "jsnum option"
  opt_voffset :: jsnum
  opt_order :: jsnum
  opt_interval :: jsnum
  opt_align :: jsnum

record WatermarkTextOpts =
  width :: jsnum
  height :: jsnum

record WatermarkImgOpts =
  pos_x :: "jsnum option"
  pos_y :: "jsnum option"

record WatermarkMixedGravityOpts =
  imgGravity :: jsstring
  textGravity :: jsstring

text \<open>The two fields of the image engine's metadata that the placement reads.\<close>

record Metadata =
  md_width :: "jsnum option"
  md_height :: "jsnum option"

definition margin :: jsnum where
  "margin = Fin 5"

definition name :: jsstring where
  "name = js ''watermark''"

definition gravity_message :: jsstring where
  \<open>gravity_message = js (''Watermark param 'g' must be in 'north', 'west', 'east', 'south', 'center', 'centre', 'southeast', 'southwest', 'northwest'' @ [CHR 0x27])\<close>

definition gravityConvert :: "jsstring option \<Rightarrow> error + jsstring" where
  "gravityConvert param =
     (if param \<in> set (map Some [js ''north'', js ''west'', js ''east'', js ''south'',
            js ''center'', js ''centre'', js ''southeast'', js ''southwest'', js ''northwest''])
      then (case param of Some p \<Rightarrow> Inr p | None \<Rightarrow> Inl (InvalidArgument gravity_message))
      else if param = Some (js ''se'') then Inr (js ''southeast'')
      else if param = Some (js ''sw'') then Inr (js ''southwest'')
      else if param = Some (js ''nw'') then Inr (js ''northwest'')
      else if param = Some (js ''ne'') then Inr (js ''northeast'')
      else Inl (InvalidArgument gravity_message))"

definition default_opt :: WatermarkOpts where
  "default_opt =
     \<lparr>opt_text = [], opt_t = Fin 100, opt_g = js ''se'', opt_fill = False, opt_rotate = Fin 0,
      opt_size = Fin 40, opt_color = Some (js ''000000''), opt_image = [], opt_auto = True,
      opt_x = None, opt_y = None, opt_voffset = Fin 0, opt_order = Fin 0,
      opt_interval = Fin 0, opt_align = Fin 0\<rparr>"

definition range_message :: "string \<Rightarrow> string \<Rightarrow> jsstring" where
  "range_message k bounds =
     js (''Watermark param '' @ [CHR 0x27] @ k @ [CHR 0x27] @ '' must be '' @ bounds)"

definition unknown_message :: "jsstring option \<Rightarrow> jsstring" where
  \<open>unknown_message k =
     js ''Unkown param: "'' @ (case k of None \<Rightarrow> js ''undefined'' | Some s \<Rightarrow> s) @ js ''"''\<close>

definition empty_message :: jsstring where
  \<open>empty_message = js ''Watermark param 'text' and 'image' should not be empty at the same time''\<close>

text \<open>
  One round of the loop of \<open>validate\<close> on a token that is neither the action's name nor
  empty: the token is split at underscores into key and value, and the chain of
  comparisons on the key follows, in the order of the source. \<open>dec\<close> is the platform's
  base64-to-text decoding.
\<close>

definition validate_param ::
  "(jsstring \<Rightarrow> jsstring) \<Rightarrow> WatermarkOpts \<Rightarrow> jsstring \<Rightarrow> error + WatermarkOpts" where
  "validate_param dec opt param =
     (let k = at_index (split 95 param) 0; v = at_index (split 95 param) 1 in
      if k = Some (js ''text'') then
        (case v of None \<Rightarrow> Inr opt
         | Some s \<Rightarrow> if s \<noteq> [] then Inr (opt\<lparr>opt_text := dec s\<rparr>) else Inr opt)
      else if k = Some (js ''image'') then
        (case v of None \<Rightarrow> Inr opt
         | Some s \<Rightarrow> if s \<noteq> [] then Inr (opt\<lparr>opt_image := dec s\<rparr>) else Inr opt)
      else if k = Some (js ''t'') then Inr (opt\<lparr>opt_t := parseInt v\<rparr>)
      else if k = Some (js ''x'') then
        (if js_lt (parseInt v) (Fin 0) \<or> js_lt (Fin 4096) (parseInt v)
         then Inl (InvalidArgument (range_message ''x'' ''between 0 and 4096''))
         else Inr (opt\<lparr>opt_x := Some (parseInt v)\<rparr>))
      else if k = Some (js ''y'') then
        (if js_lt (parseInt v) (Fin 0) \<or> js_lt (Fin 4096) (parseInt v)
         then Inl (InvalidArgument (range_message ''y'' ''between 0 and 4096''))
         else Inr (opt\<lparr>opt_y := Some (parseInt v)\<rparr>))
      else if k = Some (js ''voffset'') then
        (if js_lt (parseInt v) (Fin (- 1000)) \<or> js_lt (Fin 1000) (parseInt v)
         then Inl (InvalidArgument (range_message ''voffset'' ''between -1000 and 1000''))
         else Inr (opt\<lparr>opt_voffset := parseInt v\<rparr>))
      else if k = Some (js ''order'') then Inr (opt\<lparr>opt_order := parseInt v\<rparr>)
      else if k = Some (js ''interval'') then
        (if js_lt (parseInt v) (Fin 0) \<or> js_lt (Fin 1000) (parseInt v)
         then Inl (InvalidArgument (range_message ''interval'' ''between 0 and 1000''))
         else Inr (opt\<lparr>opt_interval := parseInt v\<rparr>))
      else if k = Some (js ''align'') then Inr (opt\<lparr>opt_align := parseInt v\<rparr>)
      else if k = Some (js ''g'') then
        (case gravityConvert v of Inl e \<Rightarrow> Inl e | Inr g' \<Rightarrow> Inr (opt\<lparr>opt_g := g'\<rparr>))
      else if k = Some (js ''size'') then
        (if js_lt (parseInt v) (Fin 0) \<or> js_lt (Fin 1000) (parseInt v)
         then Inl (InvalidArgument (range_message ''size'' ''between 0 and 4096''))
         else Inr (opt\<lparr>opt_size := parseInt v\<rparr>))
      else if k = Some (js ''fill'') then
        (if v = Some (js ''0'') \<or> v = Some (js ''1'')
         then Inr (opt\<lparr>opt_fill := (v = Some (js ''1''))\<rparr>)
         else Inl (InvalidArgument (range_message ''fill'' ''0 or 1'')))
      else if k = Some (js ''auto'') then
        (if v = Some (js ''0'') \<or> v = Some (js ''1'')
         then Inr (opt\<lparr>opt_auto := (v = Some (js ''1''))\<rparr>)
         else Inl (InvalidArgument (range_message ''auto'' ''0 or 1'')))
      else if k = Some (js ''rotate'') then
        (if js_le (Fin 0) (parseInt v) \<and> js_le (parseInt v) (Fin 360) then
           (if js_eq (parseInt v) (Fin 360) then Inr (opt\<lparr>opt_rotate := Fin 0\<rparr>)
            else Inr (opt\<lparr>opt_rotate := parseInt v\<rparr>))
         else Inl (InvalidArgument (range_message ''rotate'' ''between 0 and 360'')))
      else if k = Some (js ''color'') then Inr (opt\<lparr>opt_color := v\<rparr>)
      else Inl (InvalidArgument (unknown_message k)))"

text \<open>The loop over the tokens; the first error ends it.\<close>

fun validate_loop ::
  "(jsstring \<Rightarrow> jsstring) \<Rightarrow> WatermarkOpts \<Rightarrow> jsstring list \<Rightarrow> error + WatermarkOpts" where
  "validate_loop dec opt [] = Inr opt"
| "validate_loop dec opt (param # params) =
     (if name = param \<or> param = [] then validate_loop dec opt params
      else (case validate_param dec opt param of
              Inl e \<Rightarrow> Inl e
            | Inr opt' \<Rightarrow> validate_loop dec opt' params))"

definition WatermarkAction_validate ::
  "(jsstring \<Rightarrow> jsstring) \<Rightarrow> jsstring list \<Rightarrow> error + WatermarkOpts" where
  "WatermarkAction_validate dec params =
     (case validate_loop dec default_opt params of
        Inl e \<Rightarrow> Inl e
      | Inr opt \<Rightarrow>
          if opt_text opt = [] \<and> opt_image opt = [] then Inl (InvalidArgument empty_message)
          else Inr opt)"

text \<open>The width loop of \<open>calculateTextSize\<close> over the characters the iterator yields.\<close>

fun cWidth_loop :: "jsnum \<Rightarrow> jsnum \<Rightarrow> jsstring list \<Rightarrow> jsnum" where
  "cWidth_loop fontSize cWidth [] = cWidth"
| "cWidth_loop fontSize cWidth (v # vs) =
     cWidth_loop fontSize
       (if code_gt (charCodeAt0 v) 256 then fadd cWidth fontSize
        else if code_gt (charCodeAt0 v) 97 then fadd cWidth (fdiv fontSize (Fin 2))
        else fadd cWidth (fmul fontSize (num_lit (8 / 10))))
       vs"

definition calculateTextSize :: "jsstring \<Rightarrow> jsnum \<Rightarrow> WatermarkTextOpts" where
  "calculateTextSize text fontSize =
     \<lparr>width = Math_round (fadd (cWidth_loop fontSize (Fin 0) (string_iterator text)) margin),
      height = Math_round (fmul fontSize (num_lit (12 / 10)))\<rparr>"

definition calculateImgPos :: "WatermarkOpts \<Rightarrow> Metadata \<Rightarrow> Metadata \<Rightarrow> WatermarkImgOpts" where
  "calculateImgPos opt metadata markMetadata =
     (case (md_width markMetadata, md_width metadata, md_height markMetadata, md_height metadata) of
        (Some mw, Some bw, Some mh, Some bh) \<Rightarrow>
          if truthy_num mw \<and> truthy_num bw \<and> truthy_num mh \<and> truthy_num bh then
            (let imgY1 =
                   (if opt_g opt \<in> set [js ''east'', js ''west'', js ''center'']
                    then Some (fadd (Math_round (fdiv (fsub bh mh) (Fin 2))) (opt_voffset opt))
                    else (case opt_y opt of
                            None \<Rightarrow> None
                          | Some y \<Rightarrow>
                              if truthy_num y then
                                (if startsWith (opt_g opt) (js ''south'')
                                 then Some (fsub (fsub bh mh) y) else Some y)
                              else None))
             in if opt_g opt \<in> set [js ''north'', js ''south''] then
                  \<lparr>pos_x = Some (Math_round (fdiv (fsub bw mw) (Fin 2))),
                   pos_y = (if \<not> truthy_opt imgY1
                            then (if opt_g opt = js ''north'' then Some (Fin 0)
                                  else Some (fsub bh mh))
                            else imgY1)\<rparr>
                else
                  \<lparr>pos_x = (case opt_x opt of
                              None \<Rightarrow> None
                            | Some x \<Rightarrow>
                                if truthy_num x then
                                  (if endsWith (opt_g opt) (js ''east'')
                                   then Some (fsub (fsub bw mw) x)
                                   else if opt_g opt = js ''center''
                                   then Some (Math_round (fdiv (fsub bw mw) (Fin 2)))
                                   else Some x)
                                else None),
                   pos_y = imgY1\<rparr>)
          else \<lparr>pos_x = None, pos_y = None\<rparr>
      | _ \<Rightarrow> \<lparr>pos_x = None, pos_y = None\<rparr>)"

definition calculateMixedGravity :: "WatermarkOpts \<Rightarrow> WatermarkMixedGravityOpts" where
  "calculateMixedGravity opt =
     (if js_eq (opt_order opt) (Fin 1) then
        (if js_eq (opt_align opt) (Fin 1)
         then \<lparr>imgGravity = js ''east'', textGravity = js ''west''\<rparr>
         else if js_eq (opt_align opt) (Fin 2)
         then \<lparr>imgGravity = js ''southeast'', textGravity = js ''southwest''\<rparr>
         else \<lparr>imgGravity = js ''northeast'', textGravity = js ''northwest''\<rparr>)
      else
        (if js_eq (opt_align opt) (Fin 1)
         then \<lparr>imgGravity = js ''west'', textGravity = js ''east''\<rparr>
         else if js_eq (opt_align opt) (Fin 2)
         then \<lparr>imgGravity = js ''southwest'', textGravity = js ''southeast''\<rparr>
         else \<lparr>imgGravity = js ''northwest'', textGravity = js ''northeast''\<rparr>))"

section \<open>The format action\<close>

record FormatOpts =
  format :: jsstring

definition SUPPORTED_FORMAT :: "jsstring list" where
  "SUPPORTED_FORMAT = [js ''jpg'', js ''jpeg'', js ''png'', js ''webp'', js ''gif'']"

definition FormatAction_validate :: "jsstring list \<Rightarrow> error + FormatOpts" where
  "FormatAction_validate params =
     (case params of
        [p0, p1] \<Rightarrow>
          if p1 \<notin> set SUPPORTED_FORMAT
          then Inl (InvalidArgument (js ''Format must be one of '' @ toString_array SUPPORTED_FORMAT))
          else Inr \<lparr>format = p1\<rparr>
      | _ \<Rightarrow> Inl (InvalidArgument (js ''Format param error, e.g: format,jpg (''
                                     @ toString_array SUPPORTED_FORMAT @ js '')'')))"

text \<open>
  The feature flags are keyed by the members of the enumeration \<open>Features\<close>, which is
  declared outside these files; the two members this action names are kept apart from
  the others.
\<close>

datatype Features = AutoWebp | ReadAllAnimatedFrames | OtherFeature jsstring

record ('img, 'store) IImageContext =
  ctx_image :: 'img
  ctx_features :: "Features \<Rightarrow> bool option"
  ctx_bufferStore :: 'store

text \<open>
  The image engine is a collaborator: what \<open>process\<close> asks of it is taken as a record of
  operations on image handles and byte buffers.
\<close>

record ('img, 'buf) ImageEngine =
  toBuffer :: "'img \<Rightarrow> 'buf"
  metadata_pages :: "'buf \<Rightarrow> jsnum option"
  sharp_page :: "'buf \<Rightarrow> nat \<Rightarrow> 'img"
  jpeg :: "'img \<Rightarrow> 'img"
  png :: "nat \<Rightarrow> nat \<Rightarrow> 'img \<Rightarrow> 'img"
  webp :: "nat \<Rightarrow> nat \<Rightarrow> 'img \<Rightarrow> 'img"

definition beforeNewContext ::
  "(Features \<Rightarrow> bool option) \<Rightarrow> jsstring list \<Rightarrow> (error + unit) \<times> (Features \<Rightarrow> bool option)" where
  "beforeNewContext features params =
     (case FormatAction_validate params of
        Inl e \<Rightarrow> (Inl e, features)
      | Inr opts \<Rightarrow>
          if format opts \<in> set [js ''webp'', js ''gif'']
          then (Inr (), features(ReadAllAnimatedFrames \<mapsto> True))
          else (Inr (), features(ReadAllAnimatedFrames \<mapsto> False)))"

text \<open>
  \<open>process\<close> returns the outcome together with the context as the call leaves it: the
  flag is cleared before the tokens are validated, so it stays cleared when they are
  rejected.
\<close>

definition FormatAction_process ::
  "('img, 'buf) ImageEngine \<Rightarrow> ('img, 'store) IImageContext \<Rightarrow> jsstring list
     \<Rightarrow> (error + unit) \<times> ('img, 'store) IImageContext" where
  "FormatAction_process eng ctx params =
     (let ctx1 = (if ctx_features ctx AutoWebp = Some True
                  then ctx\<lparr>ctx_features := (ctx_features ctx)(AutoWebp \<mapsto> False)\<rparr>
                  else ctx)
      in case FormatAction_validate params of
           Inl e \<Rightarrow> (Inl e, ctx1)
         | Inr opt \<Rightarrow>
             if js ''gif'' = format opt then (Inr (), ctx1)
             else
               (let buffer = toBuffer eng (ctx_image ctx1);
                    pages = metadata_pages eng buffer;
                    srcImgIsAnimated =
                      (case pages of None \<Rightarrow> False
                       | Some n \<Rightarrow> truthy_num n \<and> js_lt (Fin 0) n);
                    notToAnimatedFormat = (format opt \<notin> set [js ''webp'', js ''gif'']);
                    ctx2 = (if srcImgIsAnimated \<and> notToAnimatedFormat
                            then ctx1\<lparr>ctx_image := sharp_page eng buffer 0\<rparr> else ctx1)
                in if format opt \<in> set [js ''jpeg'', js ''jpg'']
                   then (Inr (), ctx2\<lparr>ctx_image := jpeg eng (ctx_image ctx2)\<rparr>)
                   else if format opt = js ''png''
                   then (Inr (), ctx2\<lparr>ctx_image := png eng 2 80 (ctx_image ctx2)\<rparr>)
                   else if format opt = js ''webp''
                   then (Inr (), ctx2\<lparr>ctx_image := webp eng 2 80 (ctx_image ctx2)\<rparr>)
                   else (Inr (), ctx2)))"

section \<open>Example inputs\<close>

text \<open>
  A flag set in which automatic WebP negotiation is on, an engine over numbered handles
  that leaves every handle as it is, and a context holding both flag set and handle.
\<close>

definition flags_AutoWebp :: "Features \<Rightarrow> bool option" where
  "flags_AutoWebp = Map.empty(AutoWebp \<mapsto> True)"

definition still_engine :: "(nat, nat) ImageEngine" where
  "still_engine =
     \<lparr>toBuffer = id, metadata_pages = (\<lambda>b. None), sharp_page = (\<lambda>b n. b), jpeg = id,
      png = (\<lambda>e q. id), webp = (\<lambda>e q. id)\<rparr>"

definition negotiating_ctx :: "(nat, unit) IImageContext" where
  "negotiating_ctx = \<lparr>ctx_image = 0, ctx_features = flags_AutoWebp, ctx_bufferStore = ()\<rparr>"

section \<open>Notions the statements use\<close>

text \<open>
  Key, value and number of a token, read off the way \<open>validate\<close> reads them; whether a
  result is a raised \<open>InvalidArgument\<close>; and the two sides of a bound.
\<close>

definition token_key :: "jsstring \<Rightarrow> jsstring option" where
  "token_key p = at_index (split 95 p) 0"

definition token_value :: "jsstring \<Rightarrow> jsstring option" where
  "token_value p = at_index (split 95 p) 1"

definition token_number :: "jsstring \<Rightarrow> jsnum" where
  "token_number p = parseInt (token_value p)"

definition raises :: "error + 'a \<Rightarrow> bool" where
  "raises r = (case r of Inl (InvalidArgument m) \<Rightarrow> True | Inr a \<Rightarrow> False)"

definition out_of_range :: "rat \<Rightarrow> rat \<Rightarrow> jsnum \<Rightarrow> bool" where
  "out_of_range lo hi n \<longleftrightarrow> js_lt n (Fin lo) \<or> js_lt (Fin hi) n"

definition in_range :: "rat \<Rightarrow> rat \<Rightarrow> jsnum \<Rightarrow> bool" where
  "in_range lo hi n \<longleftrightarrow> js_le (Fin lo) n \<and> js_le n (Fin hi)"

text \<open>
  The bounds as the specification lists them for the six keys it names, the field of the
  options record each of these keys stands for, and the number that ends up stored for a
  token's number: itself, but 0 for a rotation of 360.
\<close>

definition claimed_range :: "jsstring \<Rightarrow> (rat \<times> rat) option" where
  "claimed_range k =
     (if k = js ''x'' then Some (0, 4096)
      else if k = js ''y'' then Some (0, 4096)
      else if k = js ''voffset'' then Some (- 1000, 1000)
      else if k = js ''interval'' then Some (0, 1000)
      else if k = js ''size'' then Some (0, 1000)
      else if k = js ''rotate'' then Some (0, 360)
      else None)"

definition field_of_key :: "jsstring \<Rightarrow> WatermarkOpts \<Rightarrow> jsnum option" where
  "field_of_key k opt =
     (if k = js ''x'' then opt_x opt
      else if k = js ''y'' then opt_y opt
      else if k = js ''voffset'' then Some (opt_voffset opt)
      else if k = js ''interval'' then Some (opt_interval opt)
      else if k = js ''size'' then Some (opt_size opt)
      else if k = js ''rotate'' then Some (opt_rotate opt)
      else None)"

definition stored_number :: "jsstring \<Rightarrow> jsnum \<Rightarrow> jsnum" where
  "stored_number k n = (if k = js ''rotate'' \<and> js_eq n (Fin 360) then Fin 0 else n)"

text \<open>
  The text metrics in the specification's words: the width of one character by its
  character code, and the size as the rounded margin plus the sum of the widths, taken in
  the order of the text and in JavaScript's arithmetic, next to the rounded 1.2-fold of
  the font size.
\<close>

definition char_width :: "jsnum \<Rightarrow> jsstring \<Rightarrow> jsnum" where
  "char_width fontSize v =
     (if code_gt (charCodeAt0 v) 256 then fontSize
      else if code_gt (charCodeAt0 v) 97 then fdiv fontSize (Fin 2)
      else fmul (num_lit (8 / 10)) fontSize)"

definition spec_textSize :: "jsstring \<Rightarrow> jsnum \<Rightarrow> WatermarkTextOpts" where
  "spec_textSize text fontSize =
     \<lparr>width = Math_round
               (fadd margin (foldl fadd (Fin 0) (map (char_width fontSize) (string_iterator text)))),
      height = Math_round (fmul fontSize (num_lit (12 / 10)))\<rparr>"

section \<open>Rounding to doubles\<close>

subsection \<open>Ties-to-even rounding to an integer\<close>

lemma rhe_of_int [simp]: "rhe (of_int n) = n"
  by (simp add: rhe_def)

lemma rhe_bounds: "\<lfloor>y\<rfloor> \<le> rhe y \<and> rhe y \<le> \<lfloor>y\<rfloor> + 1"
  by (simp add: rhe_def)

lemma rhe_mono: "a \<le> b \<Longrightarrow> rhe a \<le> rhe b"
proof -
  assume ab: "a \<le> b"
  then have fl: "\<lfloor>a\<rfloor> \<le> \<lfloor>b\<rfloor>" by (rule floor_mono)
  show ?thesis
  proof (cases "\<lfloor>a\<rfloor> = \<lfloor>b\<rfloor>")
    case True
    with ab show ?thesis by (auto simp: rhe_def)
  next
    case False
    with fl have "\<lfloor>a\<rfloor> + 1 \<le> \<lfloor>b\<rfloor>" by simp
    with rhe_bounds [of a] rhe_bounds [of b] show ?thesis by linarith
  qed
qed

lemma rhe_minus: "rhe (- a) = - rhe a"
proof (cases "a = of_int \<lfloor>a\<rfloor>")
  case True
  then have "- a = of_int (- \<lfloor>a\<rfloor>)" by simp
  then have "rhe (- a) = - \<lfloor>a\<rfloor>" by (metis rhe_of_int)
  moreover from True have "rhe a = \<lfloor>a\<rfloor>" by (metis rhe_of_int)
  ultimately show ?thesis by simp
next
  case False
  have lo: "of_int \<lfloor>a\<rfloor> < a" using False of_int_floor_le [of a] by linarith
  have hi: "a < of_int \<lfloor>a\<rfloor> + 1" by linarith
  have fm: "\<lfloor>- a\<rfloor> = - \<lfloor>a\<rfloor> - 1"
    by (rule floor_unique) (use lo hi in simp_all)
  show ?thesis
    unfolding rhe_def fm using lo hi by (auto simp: algebra_simps)
qed

lemma powi_nat: "0 \<le> b \<Longrightarrow> (2::rat) powi b = 2 ^ nat b"
  by (simp add: power_int_def)

lemma powi_neg: "0 \<le> b \<Longrightarrow> (2::rat) powi (- b) = 1 / 2 ^ nat b"
  by (simp add: power_int_def field_simps)

lemma binade_ge1:
  assumes "1 \<le> \<bar>x\<bar>"
  shows "2 powi binade x \<le> \<bar>x\<bar> \<and> \<bar>x\<bar> < 2 powi (binade x + 1)"
proof -
  define m where "m = \<lfloor>\<bar>x\<bar>\<rfloor>"
  have m1: "1 \<le> m" using assms by (simp add: m_def le_floor_iff)
  then have b1: "1 \<le> bitlen m" by (simp add: bitlen_alt_def)
  from m1 bitlen_bounds [of m]
  have lo: "2 ^ nat (bitlen m - 1) \<le> m" and hi: "m < 2 ^ nat (bitlen m)" by simp_all
  have bin: "binade x = bitlen m - 1" using assms by (simp add: binade_def m_def)
  have "(2::rat) powi (bitlen m - 1) = of_int (2 ^ nat (bitlen m - 1))"
    using b1 by (simp add: powi_nat)
  also have "\<dots> \<le> of_int m" using lo by (simp only: of_int_le_iff)
  also have "\<dots> \<le> \<bar>x\<bar>" by (simp add: m_def)
  finally have A: "2 powi binade x \<le> \<bar>x\<bar>" by (simp add: bin)
  have "\<bar>x\<bar> < of_int (m + 1)" by (simp add: m_def; linarith)
  also have "\<dots> \<le> of_int (2 ^ nat (bitlen m))" using hi by (simp only: of_int_le_iff)
  also have "\<dots> = (2::rat) powi (bitlen m)" using b1 by (simp add: powi_nat)
  finally have B: "\<bar>x\<bar> < 2 powi (binade x + 1)" by (simp add: bin)
  from A B show ?thesis ..
qed

lemma binade_lt1:
  assumes "x \<noteq> 0" "\<bar>x\<bar> < 1"
  shows "2 powi binade x \<le> \<bar>x\<bar> \<and> \<bar>x\<bar> < 2 powi (binade x + 1)"
proof -
  define y where "y = 1 / \<bar>x\<bar>"
  define n where "n = \<lceil>y\<rceil> - 1"
  have xpos: "0 < \<bar>x\<bar>" using assms by simp
  have y1: "1 < y" using assms xpos by (simp add: y_def)
  have n1: "1 \<le> n" using y1 by (simp add: n_def less_ceiling_iff)
  then have b1: "1 \<le> bitlen n" by (simp add: bitlen_alt_def)
  from n1 bitlen_bounds [of n]
  have lo: "2 ^ nat (bitlen n - 1) \<le> n" and hi: "n < 2 ^ nat (bitlen n)" by simp_all
  have bin: "binade x = - bitlen n" using assms by (simp add: binade_def n_def y_def)
  have xy: "\<bar>x\<bar> = 1 / y" by (simp add: y_def)
  have "y \<le> of_int (n + 1)" by (simp add: n_def)
  also have "\<dots> \<le> of_int (2 ^ nat (bitlen n))" using hi by (simp only: of_int_le_iff)
  finally have yle: "y \<le> 2 ^ nat (bitlen n)" by simp
  have "(2::rat) powi (- bitlen n) = 1 / 2 ^ nat (bitlen n)" using b1 by (simp add: powi_neg)
  also have "\<dots> \<le> 1 / y" using yle y1 by (simp add: frac_le)
  finally have A: "2 powi binade x \<le> \<bar>x\<bar>" by (simp add: bin xy)
  have "of_int (2 ^ nat (bitlen n - 1)) \<le> (of_int n :: rat)" using lo by (simp only: of_int_le_iff)
  also have "\<dots> < y" by (simp add: n_def; linarith)
  finally have ylt: "2 ^ nat (bitlen n - 1) < y" by simp
  have "1 / y < 1 / 2 ^ nat (bitlen n - 1)" using ylt by (simp add: frac_less2)
  also have "\<dots> = (2::rat) powi (- (bitlen n - 1))"
    using b1 powi_neg [of "bitlen n - 1"] by simp
  finally have B: "\<bar>x\<bar> < 2 powi (binade x + 1)" by (simp add: bin xy)
  from A B show ?thesis ..
qed

lemma binade_bounds:
  assumes "x \<noteq> 0"
  shows "2 powi binade x \<le> \<bar>x\<bar>" and "\<bar>x\<bar> < 2 powi (binade x + 1)"
  using assms binade_ge1 [of x] binade_lt1 [of x] by (cases "1 \<le> \<bar>x\<bar>"; simp)+

lemma powi_less_iff: "(2::rat) powi a < 2 powi b \<longleftrightarrow> a < b"
proof
  assume l: "(2::rat) powi a < 2 powi b"
  show "a < b"
  proof (rule ccontr)
    assume "\<not> a < b"
    then have "(2::rat) powi b \<le> 2 powi a" by (intro power_int_increasing) simp_all
    with l show False by simp
  qed
next
  assume "a < b"
  then show "(2::rat) powi a < 2 powi b" by (intro power_int_strict_increasing) simp_all
qed

lemma powi_le_iff: "(2::rat) powi a \<le> 2 powi b \<longleftrightarrow> a \<le> b"
  using powi_less_iff [of b a] by (simp add: not_less [symmetric])


lemma binade_unique:
  assumes "2 powi e \<le> \<bar>x\<bar>" "\<bar>x\<bar> < 2 powi (e + 1)"
  shows "binade x = e"
proof -
  have x0: "x \<noteq> 0" using assms(1) less_le_trans [of 0 "2 powi e" "\<bar>x\<bar>"] by auto
  from binade_bounds [OF x0] assms
  have "(2::rat) powi e < 2 powi (binade x + 1)" "(2::rat) powi binade x < 2 powi (e + 1)"
    by linarith+
  then show ?thesis by (simp add: powi_less_iff)
qed

lemma binade_mono:
  assumes "x \<noteq> 0" "\<bar>x\<bar> \<le> \<bar>y\<bar>"
  shows "binade x \<le> binade y"
proof -
  have y0: "y \<noteq> 0" using assms by auto
  from binade_bounds [OF assms(1)] binade_bounds [OF y0] assms(2)
  have "(2::rat) powi binade x < 2 powi (binade y + 1)" by linarith
  then show ?thesis by (simp add: powi_less_iff)
qed


lemma ulp_pos [simp]: "0 < ulp x"
  by (simp add: ulp_def)

lemma ulp_nz [simp]: "ulp x \<noteq> 0"
  by (simp add: ulp_def)

lemma ulp_nonneg [simp]: "0 \<le> ulp x"
  by (simp add: ulp_def)

lemma ulp_minus [simp]: "ulp (- x) = ulp x"
  by (simp add: ulp_def binade_def)

lemma flr_0 [simp]: "flr 0 = 0"
  by (simp add: flr_def)

lemma flr_minus: "flr (- x) = - flr x"
  by (simp add: flr_def rhe_minus)

lemma flr_exact: "x / ulp x = of_int m \<Longrightarrow> flr x = x"
proof -
  assume a: "x / ulp x = of_int m"
  then have "rat_of_int (rhe (x / ulp x)) * ulp x = x / ulp x * ulp x"
    by (simp only: rhe_of_int)
  then show ?thesis by (simp add: flr_def)
qed

lemma powi_shift: "(2::rat) powi a = 2 powi (a - b) * 2 powi b"
  by (simp add: power_int_add [symmetric])

lemma flr_grid:
  assumes e: "- 1022 \<le> e" and k: "\<bar>k\<bar> < 2 ^ 53"
  shows "flr (of_int k * 2 powi (e - 52)) = of_int k * 2 powi (e - 52)"
proof (cases "k = 0")
  case True
  then show ?thesis by simp
next
  case False
  define r :: rat where "r = of_int k * 2 powi (e - 52)"
  have r0: "r \<noteq> 0" using False by (simp add: r_def)
  have "\<bar>r\<bar> = of_int \<bar>k\<bar> * 2 powi (e - 52)" by (simp add: r_def abs_mult)
  also have "\<dots> < of_int (2 ^ 53) * 2 powi (e - 52)"
    using k by (intro mult_strict_right_mono) (simp_all only: of_int_less_iff, simp)
  also have "\<dots> = 2 powi (e + 1)"
    using powi_shift [of "e + 1" "e - 52"] by simp
  finally have "\<bar>r\<bar> < 2 powi (e + 1)" .
  with binade_bounds(1) [OF r0] have "(2::rat) powi binade r < 2 powi (e + 1)" by linarith
  then have "binade r \<le> e" by (simp add: powi_less_iff)
  with e have le: "max (binade r) (- 1022) \<le> e" by simp
  define d where "d = e - max (binade r) (- 1022)"
  have d0: "0 \<le> d" using le by (simp add: d_def)
  have "(2::rat) powi (e - 52) = 2 powi d * ulp r"
    using powi_shift [of "e - 52" "max (binade r) (- 1022) - 52"]
    by (simp add: ulp_def d_def algebra_simps)
  then have "r = of_int k * 2 powi d * ulp r" by (simp add: r_def)
  then have "r / ulp r = of_int k * 2 powi d * ulp r / ulp r" by simp
  then have "r / ulp r = of_int k * 2 powi d" by simp
  also have "\<dots> = of_int (k * 2 ^ nat d)" using d0 by (simp add: powi_nat)
  finally have "flr r = r" by (rule flr_exact)
  then show ?thesis by (simp add: r_def)
qed

lemma flr_grid_le:
  assumes e: "- 1022 \<le> e" and k: "\<bar>k\<bar> \<le> 2 ^ 53"
  shows "flr (of_int k * 2 powi (e - 52)) = of_int k * 2 powi (e - 52)"
proof (cases "\<bar>k\<bar> < 2 ^ 53")
  case True
  with e show ?thesis by (rule flr_grid)
next
  case False
  with k have kk: "k = 2 ^ 53 \<or> k = - (2 ^ 53)" by linarith
  then have "rat_of_int k * 2 powi (e - 52) = of_int (k div 2) * 2 powi ((e + 1) - 52)"
    using powi_shift [of "e + 1 - 52" "e - 52"] by auto
  moreover have "\<bar>k div 2\<bar> < 2 ^ 53" using kk by auto
  moreover have "- 1022 \<le> e + 1" using e by simp
  ultimately show ?thesis using flr_grid [of "e + 1" "k div 2"] by simp
qed

lemma flr_of_int:
  assumes "\<bar>n\<bar> \<le> 2 ^ 53"
  shows "flr (of_int n) = of_int n"
  using flr_grid_le [of 52 n] assms by simp

lemma flr_upper:
  assumes "0 < x"
  shows "rhe (x / ulp x) \<le> 2 ^ 53"
    and "flr x \<le> 2 powi (max (binade x) (- 1022) + 1)"
proof -
  define e where "e = max (binade x) (- 1022)"
  have x0: "x \<noteq> 0" using assms by simp
  have "x < 2 powi (binade x + 1)" using binade_bounds(2) [OF x0] assms by simp
  also have "\<dots> \<le> 2 powi (e + 1)" by (simp add: powi_le_iff e_def)
  also have "\<dots> = 2 ^ 53 * ulp x"
    using powi_shift [of "e + 1" "e - 52"] by (simp add: ulp_def e_def)
  finally have "x / ulp x < 2 ^ 53" by (simp add: pos_divide_less_eq)
  then have "rhe (x / ulp x) \<le> rhe (of_int (2 ^ 53))" by (intro rhe_mono) simp
  then show A: "rhe (x / ulp x) \<le> 2 ^ 53" by (simp only: rhe_of_int)
  have "flr x = of_int (rhe (x / ulp x)) * ulp x" using x0 by (simp add: flr_def)
  also have "\<dots> \<le> of_int (2 ^ 53) * ulp x"
    using A by (intro mult_right_mono) (simp_all only: of_int_le_iff, simp)
  also have "\<dots> = 2 powi (e + 1)"
    using powi_shift [of "e + 1" "e - 52"] by (simp add: ulp_def e_def)
  finally show "flr x \<le> 2 powi (max (binade x) (- 1022) + 1)" by (simp add: e_def)
qed

lemma flr_lower:
  assumes "0 < x" and "- 1022 \<le> binade x"
  shows "2 powi binade x \<le> flr x"
proof -
  have x0: "x \<noteq> 0" using assms by simp
  have u: "ulp x = 2 powi (binade x - 52)" using assms by (simp add: ulp_def max_def)
  have "2 ^ 52 * ulp x = 2 powi binade x"
    using powi_shift [of "binade x" "binade x - 52"] by (simp add: u)
  also have "\<dots> \<le> x" using binade_bounds(1) [OF x0] assms by simp
  finally have "2 ^ 52 \<le> x / ulp x" by (simp add: pos_le_divide_eq)
  then have "rhe (of_int (2 ^ 52)) \<le> rhe (x / ulp x)" by (intro rhe_mono) simp
  then have "2 ^ 52 \<le> rhe (x / ulp x)" by (simp only: rhe_of_int)
  then have "of_int (2 ^ 52) * ulp x \<le> of_int (rhe (x / ulp x)) * ulp x"
    by (intro mult_right_mono) (simp_all only: of_int_le_iff, simp)
  also have "\<dots> = flr x" using x0 by (simp add: flr_def)
  finally show ?thesis
    using powi_shift [of "binade x" "binade x - 52"] by (simp add: u)
qed

lemma flr_nonneg: "0 \<le> x \<Longrightarrow> 0 \<le> flr x"
proof -
  assume "0 \<le> x"
  then have "0 \<le> x / ulp x" by simp
  then have "rhe (of_int 0) \<le> rhe (x / ulp x)" by (intro rhe_mono) simp
  then have "0 \<le> rhe (x / ulp x)" by (simp only: rhe_of_int)
  then show ?thesis by (simp add: flr_def)
qed

lemma flr_mono_pos:
  assumes "0 < x" "x \<le> y"
  shows "flr x \<le> flr y"
proof -
  have x0: "x \<noteq> 0" and y0: "y \<noteq> 0" and ypos: "0 < y" using assms by simp_all
  have bm: "binade x \<le> binade y" using assms by (intro binade_mono) simp_all
  show ?thesis
  proof (cases "max (binade x) (- 1022) = max (binade y) (- 1022)")
    case True
    then have u: "ulp x = ulp y" by (simp add: ulp_def)
    have "x / ulp y \<le> y / ulp y" using assms by (simp add: divide_right_mono)
    then have "rhe (x / ulp y) \<le> rhe (y / ulp y)" by (rule rhe_mono)
    then have "of_int (rhe (x / ulp y)) * ulp y \<le> of_int (rhe (y / ulp y)) * ulp y"
      by (intro mult_right_mono) simp_all
    then show ?thesis using x0 y0 by (simp add: flr_def u)
  next
    case False
    with bm have lt: "max (binade x) (- 1022) < binade y" and ny: "- 1022 \<le> binade y"
      by (auto simp: max_def split: if_splits)
    have "flr x \<le> 2 powi (max (binade x) (- 1022) + 1)" using flr_upper(2) [OF assms(1)] .
    also have "\<dots> \<le> 2 powi binade y" using lt by (simp only: powi_le_iff)
    also have "\<dots> \<le> flr y" using ypos ny by (rule flr_lower)
    finally show ?thesis .
  qed
qed

lemma flr_mono: "x \<le> y \<Longrightarrow> flr x \<le> flr y"
proof -
  assume xy: "x \<le> y"
  consider "0 < x" | "x \<le> 0" "0 \<le> y" | "y < 0" by linarith
  then show ?thesis
  proof cases
    case 1
    then show ?thesis using xy by (rule flr_mono_pos)
  next
    case 2
    then have "0 \<le> flr y" "0 \<le> flr (- x)" by (simp_all add: flr_nonneg)
    then show ?thesis by (simp add: flr_minus)
  next
    case 3
    then have "flr (- y) \<le> flr (- x)" using xy by (intro flr_mono_pos) simp_all
    then show ?thesis by (simp add: flr_minus)
  qed
qed

lemma flr_idem: "flr (flr x) = flr x"
proof (cases "x = 0")
  case True
  then show ?thesis by simp
next
  case False
  have pos: "flr (flr z) = flr z" if "0 < z" for z
  proof -
    have z0: "z \<noteq> 0" using that by simp
    have "0 \<le> flr z" using that by (simp add: flr_nonneg)
    then have "0 \<le> of_int (rhe (z / ulp z)) * ulp z" using z0 by (simp add: flr_def)
    then have k0: "0 \<le> rhe (z / ulp z)"
      using ulp_pos [of z] by (simp add: zero_le_mult_iff not_le [symmetric])
    have "\<bar>rhe (z / ulp z)\<bar> \<le> 2 ^ 53" using k0 flr_upper(1) [OF that] by simp
    then have "flr (of_int (rhe (z / ulp z)) * 2 powi (max (binade z) (- 1022) - 52))
             = of_int (rhe (z / ulp z)) * 2 powi (max (binade z) (- 1022) - 52)"
      by (intro flr_grid_le) simp_all
    then show ?thesis using z0 by (simp add: flr_def ulp_def)
  qed
  show ?thesis
  proof (cases "0 < x")
    case True
    then show ?thesis by (rule pos)
  next
    case F: False
    with False have "0 < - x" by simp
    then have "flr (flr (- x)) = flr (- x)" by (rule pos)
    then show ?thesis by (simp add: flr_minus)
  qed
qed

subsection \<open>Rounded values as numbers\<close>

lemma js_Nil [simp]: "js [] = []"
  by (simp add: js_def)

lemma js_Cons [simp]: "js (c # cs) = of_char c # js cs"
  by (simp add: js_def)

lemma ovf_small: "\<bar>r\<bar> < 2 ^ 1024 \<Longrightarrow> ovf r = Fin r"
  by (auto simp: ovf_def)

lemma fl_of_int:
  assumes "\<bar>n\<bar> \<le> 2 ^ 53"
  shows "fl (of_int n) = Fin (of_int n)"
proof -
  have "\<bar>rat_of_int n\<bar> \<le> of_int (2 ^ 53)" using assms by (simp only: of_int_abs [symmetric] of_int_le_iff)
  then have "\<bar>rat_of_int n\<bar> < 2 ^ 1024" by simp
  then show ?thesis using assms by (simp add: fl_def flr_of_int ovf_small)
qed

lemma fl_0 [simp]: "fl 0 = Fin 0"
  using fl_of_int [of 0] by simp

lemma fl_1 [simp]: "fl 1 = Fin 1"
  using fl_of_int [of 1] by simp

lemma fl_numeral [simp]:
  "numeral k \<le> (2::int) ^ 53 \<Longrightarrow> fl (numeral k) = Fin (numeral k)"
  using fl_of_int [of "numeral k"] by simp

lemma fl_neg_numeral [simp]:
  "numeral k \<le> (2::int) ^ 53 \<Longrightarrow> fl (- numeral k) = Fin (- numeral k)"
  using fl_of_int [of "- numeral k"] by simp


lemma rhe_eqI:
  assumes "\<bar>y - of_int k\<bar> < 1 / 2"
  shows "rhe y = k"
proof -
  have "\<lfloor>y\<rfloor> = k \<or> \<lfloor>y\<rfloor> = k - 1"
    using assms by (cases "of_int k \<le> y") (auto intro!: floor_unique)
  then show ?thesis
  proof
    assume f: "\<lfloor>y\<rfloor> = k"
    then have "of_int k \<le> y" using of_int_floor_le [of y] by simp
    with assms show ?thesis by (simp add: rhe_def f)
  next
    assume f: "\<lfloor>y\<rfloor> = k - 1"
    then have "y < of_int k" using floor_correct [of y] by simp
    with assms show ?thesis by (simp add: rhe_def f)
  qed
qed

lemma fl_eqI:
  assumes "2 powi e \<le> \<bar>x\<bar>" "\<bar>x\<bar> < 2 powi (e + 1)" "- 1022 \<le> e" "e < 1023"
    and "\<bar>x / 2 powi (e - 52) - of_int k\<bar> < 1 / 2" "\<bar>k\<bar> < 2 ^ 53"
  shows "fl x = Fin (of_int k * 2 powi (e - 52))"
proof -
  have b: "binade x = e" using assms(1,2) by (rule binade_unique)
  have x0: "x \<noteq> 0" using assms(1) less_le_trans [of 0 "2 powi e" "\<bar>x\<bar>"] by auto
  have u: "ulp x = 2 powi (e - 52)" using assms(3) by (simp add: ulp_def b max_def)
  have r: "flr x = of_int k * 2 powi (e - 52)"
    using x0 rhe_eqI [OF assms(5)] by (simp add: flr_def u)
  have "\<bar>rat_of_int k * 2 powi (e - 52)\<bar> = of_int \<bar>k\<bar> * 2 powi (e - 52)"
    by (simp add: abs_mult)
  also have "\<dots> < of_int (2 ^ 53) * 2 powi (e - 52)"
    using assms(6) by (intro mult_strict_right_mono) (simp_all only: of_int_less_iff, simp)
  also have "\<dots> = 2 powi (e + 1)" using powi_shift [of "e + 1" "e - 52"] by simp
  also have "\<dots> \<le> 2 powi 1024" using assms(4) by (simp only: powi_le_iff)
  finally have "\<bar>rat_of_int k * 2 powi (e - 52)\<bar> < 2 ^ 1024" by simp
  then show ?thesis by (simp add: fl_def r ovf_small)
qed

lemma lit_0_8: "num_lit (8 / 10) = Fin (3602879701896397 / 4503599627370496)"
  unfolding num_lit_def using fl_eqI [of "- 1" "8 / 10" 7205759403792794] by simp

lemma lit_1_2: "num_lit (12 / 10) = Fin (5404319552844595 / 4503599627370496)"
  unfolding num_lit_def using fl_eqI [of 0 "12 / 10" 5404319552844595] by simp

lemma floor_rat_numeral [simp]:
  "\<lfloor>(numeral a :: rat) / numeral b\<rfloor> = numeral a div numeral b"
  using floor_divide_of_int_eq [of "numeral a" "numeral b", where ?'a = rat] by simp

lemma floor_rat_neg_numeral [simp]:
  "\<lfloor>- (numeral a :: rat) / numeral b\<rfloor> = - numeral a div numeral b"
  using floor_divide_of_int_eq [of "- numeral a" "numeral b", where ?'a = rat] by simp

lemma fl_40_times_0_8: "fl (40 * (3602879701896397 / 4503599627370496)) = Fin 32"
  using fl_eqI [of 5 "40 * (3602879701896397 / 4503599627370496)" 4503599627370496] by simp

lemma fl_40_times_1_2: "fl (40 * (5404319552844595 / 4503599627370496)) = Fin 48"
  using fl_eqI [of 5 "40 * (5404319552844595 / 4503599627370496)" 6755399441055744] by simp

text \<open>The two-character text of the first scenario, and a Latin text, at the default size.\<close>

lemma calculateTextSize_two_wide:
  "calculateTextSize [20320, 22909] (Fin 40) = \<lparr>width = Fin 85, height = Fin 48\<rparr>"
  using fl_40_times_1_2
  by (simp add: calculateTextSize_def is_high_surrogate_def code_gt_def charCodeAt0_def
        margin_def lit_1_2 [simplified])

lemma calculateTextSize_ab:
  "calculateTextSize (js ''ab'') (Fin 40) = \<lparr>width = Fin 57, height = Fin 48\<rparr>"
  using fl_40_times_1_2 fl_40_times_0_8
  by (simp add: calculateTextSize_def is_high_surrogate_def code_gt_def charCodeAt0_def
        margin_def lit_1_2 [simplified] lit_0_8 [simplified])

subsection \<open>Order and arithmetic on numbers\<close>

lemma fl_not_NaN [simp]: "fl x \<noteq> NaN"
  by (simp add: fl_def ovf_def)

lemma js_le_PInf [simp]: "js_le a PInf \<longleftrightarrow> a \<noteq> NaN"
  by (cases a) simp_all

lemma js_le_NInf [simp]: "js_le NInf a \<longleftrightarrow> a \<noteq> NaN"
  by (cases a) simp_all

lemma js_le_refl: "a \<noteq> NaN \<Longrightarrow> js_le a a"
  by (cases a) simp_all

lemma js_le_trans: "js_le a b \<Longrightarrow> js_le b c \<Longrightarrow> js_le a c"
  by (cases a; cases b; cases c) simp_all

lemma js_le_zero_iff: "js_le (Fin 0) a \<longleftrightarrow> a = PInf \<or> (\<exists>r. a = Fin r \<and> 0 \<le> r)"
  by (cases a) simp_all

lemma ovf_mono: "a \<le> b \<Longrightarrow> js_le (ovf a) (ovf b)"
  by (auto simp: ovf_def)

lemma fl_mono: "a \<le> b \<Longrightarrow> js_le (fl a) (fl b)"
  by (simp add: fl_def ovf_mono flr_mono)

lemma fl_nonneg: "0 \<le> a \<Longrightarrow> js_le (Fin 0) (fl a)"
  using fl_mono [of 0 a] by simp

lemma fl_idem: "fl x = Fin r \<Longrightarrow> fl r = Fin r"
proof -
  assume a: "fl x = Fin r"
  then have r: "r = flr x" and o: "ovf (flr x) = Fin (flr x)"
    by (auto simp: fl_def ovf_def split: if_splits)
  show ?thesis by (simp add: fl_def r flr_idem o)
qed

lemma fadd_commute: "fadd a b = fadd b a"
  by (cases a; cases b) (simp_all add: add.commute)

lemma fmul_commute: "fmul a b = fmul b a"
  by (cases a; cases b) (simp_all add: mult.commute)

lemma fadd_fl_zero: "fadd (fl x) (Fin 0) = fl x"
  by (cases "fl x") (auto dest: fl_idem)

lemma fadd_fadd_zero: "fadd (fadd a b) (Fin 0) = fadd a b"
  by (cases a; cases b) (simp_all add: fadd_fl_zero)

lemma fadd_mono:
  "js_le (Fin 0) a \<Longrightarrow> js_le a a' \<Longrightarrow> js_le (Fin 0) b \<Longrightarrow> js_le b b'
     \<Longrightarrow> js_le (fadd a b) (fadd a' b')"
  by (cases a; cases a'; cases b; cases b') (simp_all add: fl_mono add_mono)

lemma fadd_nonneg: "js_le (Fin 0) a \<Longrightarrow> js_le (Fin 0) b \<Longrightarrow> js_le (Fin 0) (fadd a b)"
  by (cases a; cases b) (simp_all add: fl_nonneg)

lemma fadd_grows:
  "js_le (Fin 0) c \<Longrightarrow> fadd c (Fin 0) = c \<Longrightarrow> js_le (Fin 0) w \<Longrightarrow> js_le c (fadd c w)"
proof (cases c; cases w)
  fix a b
  assume c: "c = Fin a" and w: "w = Fin b" and d: "fadd c (Fin 0) = c" and "js_le (Fin 0) w"
  then have "js_le (fl a) (fl (a + b))" by (intro fl_mono) simp
  with d c w show "js_le c (fadd c w)" by simp
qed simp_all

lemma fmul_const_mono:
  "0 < c \<Longrightarrow> js_le (Fin 0) a \<Longrightarrow> js_le a a' \<Longrightarrow> js_le (fmul a (Fin c)) (fmul a' (Fin c))"
  by (cases a; cases a') (simp_all add: fl_mono)

lemma fmul_const_nonneg: "0 < c \<Longrightarrow> js_le (Fin 0) a \<Longrightarrow> js_le (Fin 0) (fmul a (Fin c))"
  by (cases a) (simp_all add: fl_nonneg)

lemma fdiv_const_mono:
  "0 < c \<Longrightarrow> js_le (Fin 0) a \<Longrightarrow> js_le a a' \<Longrightarrow> js_le (fdiv a (Fin c)) (fdiv a' (Fin c))"
  by (cases a; cases a') (simp_all add: fl_mono divide_right_mono)

lemma fdiv_const_nonneg: "0 < c \<Longrightarrow> js_le (Fin 0) a \<Longrightarrow> js_le (Fin 0) (fdiv a (Fin c))"
  by (cases a) (simp_all add: fl_nonneg)

lemma Math_round_mono: "js_le a b \<Longrightarrow> js_le (Math_round a) (Math_round b)"
  by (cases a; cases b) (simp_all add: floor_mono)


lemma lit_0_8_pos: "\<exists>c. 0 < c \<and> num_lit (8 / 10) = Fin c"
  unfolding lit_0_8 by (intro exI [of _ "3602879701896397 / 4503599627370496"]) simp

lemma lit_1_2_pos: "\<exists>c. 0 < c \<and> num_lit (12 / 10) = Fin c"
  unfolding lit_1_2 by (intro exI [of _ "5404319552844595 / 4503599627370496"]) simp

lemma cWidth_loop_char_width:
  "cWidth_loop f c vs = foldl fadd c (map (char_width f) vs)"
  by (induction vs arbitrary: c) (simp_all add: char_width_def fmul_commute)

lemma char_width_mono:
  assumes "js_le (Fin 0) f" "js_le f g"
  shows "js_le (char_width f v) (char_width g v)"
proof -
  obtain c where c: "0 < c" "num_lit (8 / 10) = Fin c" using lit_0_8_pos by blast
  show ?thesis
    using assms c fdiv_const_mono [of 2 f g] fmul_const_mono [of c f g]
    by (simp add: char_width_def fmul_commute [of "Fin c"])
qed

lemma char_width_nonneg:
  assumes "js_le (Fin 0) f"
  shows "js_le (Fin 0) (char_width f v)"
proof -
  obtain c where c: "0 < c" "num_lit (8 / 10) = Fin c" using lit_0_8_pos by blast
  show ?thesis
    using assms c fdiv_const_nonneg [of 2 f] fmul_const_nonneg [of c f]
    by (simp add: char_width_def fmul_commute [of "Fin c"])
qed

lemma foldl_fadd_mono:
  assumes "js_le (Fin 0) f" "js_le f g"
  shows "js_le (Fin 0) c \<Longrightarrow> js_le c c'
     \<Longrightarrow> js_le (foldl fadd c (map (char_width f) vs)) (foldl fadd c' (map (char_width g) vs))"
proof (induction vs arbitrary: c c')
  case Nil
  then show ?case by simp
next
  case (Cons v vs)
  have "js_le (Fin 0) (fadd c (char_width f v))"
    using Cons.prems(1) assms(1) by (intro fadd_nonneg char_width_nonneg)
  moreover have "js_le (fadd c (char_width f v)) (fadd c' (char_width g v))"
    using Cons.prems assms by (intro fadd_mono char_width_nonneg char_width_mono)
  ultimately show ?case using Cons.IH by simp
qed

lemma foldl_fadd_grows:
  assumes "js_le (Fin 0) f"
  shows "js_le (Fin 0) c \<Longrightarrow> fadd c (Fin 0) = c
     \<Longrightarrow> js_le c (foldl fadd c (map (char_width f) vs))"
proof (induction vs arbitrary: c)
  case Nil
  then show ?case by (auto simp: js_le_zero_iff)
next
  case (Cons v vs)
  have w: "js_le (Fin 0) (char_width f v)" using assms by (rule char_width_nonneg)
  have "js_le c (fadd c (char_width f v))" using Cons.prems w by (intro fadd_grows)
  moreover have "js_le (fadd c (char_width f v)) (foldl fadd (fadd c (char_width f v)) (map (char_width f) vs))"
    using Cons.prems w by (intro Cons.IH fadd_nonneg fadd_fadd_zero)
  ultimately show ?case using js_le_trans by simp
qed

lemma string_iterator_append:
  "\<exists>ws. map charCodeAt0 (string_iterator (a @ b)) = map charCodeAt0 (string_iterator a @ ws)"
proof (induction a rule: string_iterator.induct)
  case 1
  then show ?case by auto
next
  case (2 u)
  show ?case
  proof (cases b)
    case Nil
    then show ?thesis by simp
  next
    case (Cons w bs)
    show ?thesis
    proof (cases "is_high_surrogate u \<and> is_low_surrogate w")
      case True
      then show ?thesis using Cons
        by (intro exI [of _ "string_iterator bs"]) (simp add: charCodeAt0_def)
    next
      case False
      then show ?thesis using Cons
        by (intro exI [of _ "string_iterator (w # bs)"]) (auto simp: charCodeAt0_def)
    qed
  qed
next
  case (3 u w us)
  then show ?case by (auto simp: charCodeAt0_def)
qed

lemma char_width_cong: "charCodeAt0 v = charCodeAt0 w \<Longrightarrow> char_width f v = char_width f w"
  by (simp add: char_width_def)

lemma map_char_width_cong:
  "map charCodeAt0 vs = map charCodeAt0 ws \<Longrightarrow> map (char_width f) vs = map (char_width f) ws"
proof (induction vs arbitrary: ws)
  case Nil
  then show ?case by simp
next
  case (Cons v vs)
  then obtain w ws' where "ws = w # ws'" by (cases ws) auto
  with Cons show ?case by (auto intro: char_width_cong)
qed

lemma map_char_width_append:
  "\<exists>ws. map (char_width f) (string_iterator (a @ b))
          = map (char_width f) (string_iterator a) @ map (char_width f) ws"
proof -
  obtain ws where "map charCodeAt0 (string_iterator (a @ b))
      = map charCodeAt0 (string_iterator a @ ws)" using string_iterator_append by blast
  then have "map (char_width f) (string_iterator (a @ b))
      = map (char_width f) (string_iterator a @ ws)" by (rule map_char_width_cong)
  then show ?thesis by auto
qed

section \<open>Lemmas on the validation\<close>

lemma raises_Inl [simp]: "raises (Inl e)"
  by (cases e) (simp add: raises_def)

lemma raises_Inr [simp]: "\<not> raises (Inr a)"
  by (simp add: raises_def)

lemma claimed_range_cases:
  assumes "claimed_range k = Some (lo, hi)"
  obtains "k = js ''x''" "lo = 0" "hi = 4096"
    | "k = js ''y''" "lo = 0" "hi = 4096"
    | "k = js ''voffset''" "lo = - 1000" "hi = 1000"
    | "k = js ''interval''" "lo = 0" "hi = 1000"
    | "k = js ''size''" "lo = 0" "hi = 1000"
    | "k = js ''rotate''" "lo = 0" "hi = 360"
  using assms by (auto simp: claimed_range_def split: if_splits)

lemma js_lt_not_le: "js_lt a b \<Longrightarrow> \<not> js_le b a"
  by (cases a; cases b) simp_all

lemma js_le_not_lt: "js_le a b \<Longrightarrow> \<not> js_lt b a"
  by (cases a; cases b) simp_all

lemma validate_param_out_of_range:
  assumes "token_key p = Some k" "claimed_range k = Some (lo, hi)"
    and "out_of_range lo hi (token_number p)"
  shows "raises (validate_param dec opt p)"
  using assms(2)
proof (cases rule: claimed_range_cases)
  case 6
  then show ?thesis using assms(1,3)
    by (auto simp: validate_param_def Let_def token_key_def token_number_def token_value_def
          out_of_range_def dest: js_lt_not_le)
qed (use assms(1,3) in \<open>auto simp: validate_param_def Let_def token_key_def token_number_def
          token_value_def out_of_range_def\<close>)

lemma validate_param_in_range:
  assumes "token_key p = Some k" "claimed_range k = Some (lo, hi)"
    and "in_range lo hi (token_number p)"
  shows "\<exists>opt'. validate_param dec opt p = Inr opt'
           \<and> field_of_key k opt' = Some (stored_number k (token_number p))"
  using assms(2)
proof (cases rule: claimed_range_cases)
  case 6
  then show ?thesis using assms(1,3)
    by (auto simp: validate_param_def Let_def token_key_def token_number_def token_value_def
          in_range_def field_of_key_def stored_number_def)
qed (use assms(1,3) in \<open>auto simp: validate_param_def Let_def token_key_def token_number_def
          token_value_def in_range_def field_of_key_def stored_number_def dest: js_le_not_lt\<close>)

lemma validate_param_sets:
  assumes "token_key p = Some k" "claimed_range k = Some (lo, hi)"
    and "validate_param dec opt p = Inr opt'"
  shows "field_of_key k opt' = Some (stored_number k (token_number p))"
  using assms(2)
proof (cases rule: claimed_range_cases)
qed (use assms(1,3) in \<open>auto simp: validate_param_def Let_def token_key_def token_number_def
          token_value_def field_of_key_def stored_number_def split: if_splits\<close>)


lemma validate_param_keeps:
  assumes "token_key p \<noteq> Some k" "claimed_range k = Some (lo, hi)"
    and "validate_param dec opt p = Inr opt'"
  shows "field_of_key k opt' = field_of_key k opt"
  using assms(2)
proof (cases rule: claimed_range_cases)
qed (use assms(1,3) in \<open>auto simp: validate_param_def Let_def token_key_def field_of_key_def
          split: if_splits option.splits sum.splits\<close>)

lemma token_key_not_skipped:
  assumes "token_key p = Some k" "claimed_range k = Some (lo, hi)"
  shows "p \<noteq> name \<and> p \<noteq> []"
  using assms(2)
proof (cases rule: claimed_range_cases)
qed (use assms(1) in \<open>auto simp: token_key_def name_def\<close>)

lemma validate_loop_append:
  "validate_loop dec opt (as @ bs)
     = (case validate_loop dec opt as of Inl e \<Rightarrow> Inl e | Inr opt' \<Rightarrow> validate_loop dec opt' bs)"
  by (induction as arbitrary: opt) (simp_all split: sum.splits)

lemma validate_loop_raises:
  assumes "p \<in> set ps" "p \<noteq> name \<and> p \<noteq> []" "\<And>opt. raises (validate_param dec opt p)"
  shows "raises (validate_loop dec opt ps)"
  using assms(1)
proof (induction ps arbitrary: opt)
  case Nil
  then show ?case by simp
next
  case (Cons q qs)
  show ?case
  proof (cases "q = p")
    case True
    then show ?thesis using assms(2) assms(3) [of opt] by (auto split: sum.splits)
  next
    case False
    with Cons.prems have "p \<in> set qs" by simp
    then show ?thesis using Cons.IH by (auto split: sum.splits)
  qed
qed

lemma validate_loop_keeps:
  assumes "claimed_range k = Some (lo, hi)"
  shows "validate_loop dec opt ps = Inr opt' \<Longrightarrow> \<forall>q\<in>set ps. token_key q \<noteq> Some k
     \<Longrightarrow> field_of_key k opt' = field_of_key k opt"
proof (induction ps arbitrary: opt)
  case Nil
  then show ?case by simp
next
  case (Cons q qs)
  show ?case
  proof (cases "name = q \<or> q = []")
    case True
    then show ?thesis using Cons by auto
  next
    case False
    then obtain o1 where o1: "validate_param dec opt q = Inr o1" "validate_loop dec o1 qs = Inr opt'"
      using Cons.prems(1) by (auto split: sum.splits)
    have "field_of_key k o1 = field_of_key k opt"
      using Cons.prems(2) assms o1(1) by (intro validate_param_keeps) auto
    moreover have "field_of_key k opt' = field_of_key k o1"
      using Cons.prems(2) o1(2) by (intro Cons.IH) auto
    ultimately show ?thesis by simp
  qed
qed

lemma validate_raises_iff: "raises (WatermarkAction_validate dec ps) \<longleftrightarrow>
    raises (validate_loop dec default_opt ps)
    \<or> (\<exists>opt. validate_loop dec default_opt ps = Inr opt \<and> opt_text opt = [] \<and> opt_image opt = [])"
  by (auto simp: WatermarkAction_validate_def split: sum.splits)

lemma validate_Inr:
  "WatermarkAction_validate dec ps = Inr res \<Longrightarrow> validate_loop dec default_opt ps = Inr res"
  by (auto simp: WatermarkAction_validate_def split: sum.splits if_splits)

text \<open>
  What the validation does with a token for one of the six keys whose value parses to a
  number: outside the bound it raises, inside the bound the token is accepted and the
  number stored, a rotation of 360 as 0, and on success the field holds the number of
  the last token for the key.
\<close>

lemma validate_numeric_bounds:
  assumes "token_key p = Some k" "claimed_range k = Some (lo, hi)"
  shows "(out_of_range lo hi (token_number p)
            \<longrightarrow> raises (WatermarkAction_validate dec (pre @ p # post)))
       \<and> (in_range lo hi (token_number p)
            \<longrightarrow> (\<exists>opt'. validate_param dec opt p = Inr opt'
                   \<and> field_of_key k opt' = Some (stored_number k (token_number p))))
       \<and> (WatermarkAction_validate dec (pre @ p # post) = Inr res
            \<and> (\<forall>q\<in>set post. token_key q \<noteq> Some k)
            \<longrightarrow> field_of_key k res = Some (stored_number k (token_number p)))"
proof (intro conjI impI)
  assume "out_of_range lo hi (token_number p)"
  then have "raises (validate_param dec opt p)" for opt
    using assms by (intro validate_param_out_of_range)
  then have "raises (validate_loop dec default_opt (pre @ p # post))"
    using token_key_not_skipped [OF assms] by (intro validate_loop_raises) simp_all
  then show "raises (WatermarkAction_validate dec (pre @ p # post))"
    by (simp add: validate_raises_iff)
next
  assume "in_range lo hi (token_number p)"
  then show "\<exists>opt'. validate_param dec opt p = Inr opt'
      \<and> field_of_key k opt' = Some (stored_number k (token_number p))"
    using assms by (intro validate_param_in_range)
next
  assume a: "WatermarkAction_validate dec (pre @ p # post) = Inr res
      \<and> (\<forall>q\<in>set post. token_key q \<noteq> Some k)"
  then have l: "validate_loop dec default_opt (pre @ p # post) = Inr res"
    by (intro validate_Inr) simp
  then obtain o1 where o1: "validate_loop dec default_opt pre = Inr o1"
      "validate_loop dec o1 (p # post) = Inr res"
    by (auto simp: validate_loop_append split: sum.splits)
  then obtain o2 where o2: "validate_param dec o1 p = Inr o2" "validate_loop dec o2 post = Inr res"
    using token_key_not_skipped [OF assms] by (auto split: sum.splits)
  have "field_of_key k res = field_of_key k o2"
    using assms(2) o2(2) a by (intro validate_loop_keeps) blast+
  also have "\<dots> = Some (stored_number k (token_number p))"
    using assms o2(1) by (rule validate_param_sets)
  finally show "field_of_key k res = Some (stored_number k (token_number p))" .
qed

section \<open>Evaluating the validation\<close>

lemmas parse_defs = parseInt_def StrWhiteSpaceChar_def is_digit_def digits_value_def

lemmas decode_defs = base64_utf8_def b64_value_def utf8_cont_def utf8_second_def utf16_units_def

lemmas validate_defs = WatermarkAction_validate_def name_def validate_param_def default_opt_def

section \<open>The claims\<close>

text \<open>
  C1. For the token list \<open>['watermark', 'text_5L2g5aW9']\<close> the watermark validation
  succeeds, and the options it returns are the defaults next to the decoded two-character
  text. The gravity among them is the alias \<open>se\<close> the record starts with: no token names
  a gravity, so \<open>gravityConvert\<close> never runs, and the long form \<open>southeast\<close> that a token
  \<open>g_se\<close> would store is not what comes back.
\<close>

theorem validate_default_gravity_unconverted:
  "WatermarkAction_validate base64_utf8 [js ''watermark'', js ''text_5L2g5aW9'']
     = Inr \<lparr>opt_text = [20320, 22909], opt_t = Fin 100, opt_g = js ''se'', opt_fill = False,
            opt_rotate = Fin 0, opt_size = Fin 40, opt_color = Some (js ''000000''),
            opt_image = [], opt_auto = True, opt_x = None, opt_y = None, opt_voffset = Fin 0,
            opt_order = Fin 0, opt_interval = Fin 0, opt_align = Fin 0\<rparr>"
  by (simp add: validate_defs decode_defs)

text \<open>
  C2. \<open>gravityConvert\<close> rejects the long form \<open>northeast\<close> with \<open>InvalidArgument\<close>, although
  it is the very string the alias \<open>ne\<close> is mapped to: the list of long forms that are
  returned unchanged holds the three other diagonals and leaves this one out.
\<close>

theorem gravityConvert_northeast_rejected:
  "gravityConvert (Some (js ''northeast'')) = Inl (InvalidArgument gravity_message)
   \<and> gravityConvert (Some (js ''ne'')) = Inr (js ''northeast'')"
  by (simp add: gravityConvert_def)

text \<open>
  C3, as the code has it. \<open>validate\<close> compares six numeric options with bounds: \<open>x\<close> and
  \<open>y\<close> with \<open>[0,4096]\<close>, \<open>voffset\<close> with \<open>[-1000,1000]\<close>, \<open>interval\<close> and \<open>size\<close> with
  \<open>[0,1000]\<close>, \<open>rotate\<close> with \<open>[0,360]\<close>. A token list that holds a token for one of
  them whose value parses to a number below the lower or above the upper bound, an
  infinity included, makes \<open>validate\<close> raise \<open>InvalidArgument\<close>; for \<open>rotate\<close> so does a
  value that does not parse to a number. The opacity \<open>t\<close>, and likewise \<open>order\<close> and
  \<open>align\<close>, are compared with nothing: the parsed value is stored whatever it is. What
  becomes of a value for \<open>x\<close>, \<open>y\<close>, \<open>voffset\<close>, \<open>interval\<close> or \<open>size\<close> that does not
  parse to a number is no part of this statement, and neither is the moment at which a
  caller runs \<open>validate\<close>.
\<close>

theorem validate_checks_six_options:
  "(p \<in> set params \<and> token_key p = Some k \<and> claimed_range k = Some (lo, hi)
      \<and> out_of_range lo hi (token_number p)
      \<longrightarrow> raises (WatermarkAction_validate dec params))
   \<and> (p \<in> set params \<and> token_key p = Some (js ''rotate'') \<and> token_number p = NaN
      \<longrightarrow> raises (WatermarkAction_validate dec params))
   \<and> (token_key q = Some (js ''t'')
      \<longrightarrow> validate_param dec opt q = Inr (opt\<lparr>opt_t := token_number q\<rparr>))
   \<and> (token_key q = Some (js ''order'')
      \<longrightarrow> validate_param dec opt q = Inr (opt\<lparr>opt_order := token_number q\<rparr>))
   \<and> (token_key q = Some (js ''align'')
      \<longrightarrow> validate_param dec opt q = Inr (opt\<lparr>opt_align := token_number q\<rparr>))"
proof (intro conjI impI)
  assume a: "p \<in> set params \<and> token_key p = Some k \<and> claimed_range k = Some (lo, hi)
      \<and> out_of_range lo hi (token_number p)"
  then have "raises (validate_param dec opt' p)" for opt'
    by (intro validate_param_out_of_range [of p k lo hi]) simp_all
  moreover have "p \<noteq> name \<and> p \<noteq> []"
    using a by (intro token_key_not_skipped [of p k lo hi]) simp_all
  ultimately have "raises (validate_loop dec default_opt params)"
    using a by (intro validate_loop_raises [of p]) simp_all
  then show "raises (WatermarkAction_validate dec params)"
    by (simp add: validate_raises_iff)
next
  assume a: "p \<in> set params \<and> token_key p = Some (js ''rotate'') \<and> token_number p = NaN"
  then have "raises (validate_param dec opt' p)" for opt'
    by (simp add: validate_param_def Let_def token_key_def token_number_def token_value_def)
  moreover have "p \<noteq> name \<and> p \<noteq> []"
    using a by (intro token_key_not_skipped [of p "js ''rotate''" 0 360])
      (simp_all add: claimed_range_def)
  ultimately have "raises (validate_loop dec default_opt params)"
    using a by (intro validate_loop_raises [of p]) simp_all
  then show "raises (WatermarkAction_validate dec params)"
    by (simp add: validate_raises_iff)
next
  assume "token_key q = Some (js ''t'')"
  then show "validate_param dec opt q = Inr (opt\<lparr>opt_t := token_number q\<rparr>)"
    by (simp add: validate_param_def Let_def token_key_def token_number_def token_value_def)
next
  assume "token_key q = Some (js ''order'')"
  then show "validate_param dec opt q = Inr (opt\<lparr>opt_order := token_number q\<rparr>)"
    by (simp add: validate_param_def Let_def token_key_def token_number_def token_value_def)
next
  assume "token_key q = Some (js ''align'')"
  then show "validate_param dec opt q = Inr (opt\<lparr>opt_align := token_number q\<rparr>)"
    by (simp add: validate_param_def Let_def token_key_def token_number_def token_value_def)
qed

text \<open>
  The theorem at the tokens of the specification's fourth scenario, whose \<open>x_5000\<close> is
  rejected, at a list whose \<open>rotate_abc\<close> is rejected, and at \<open>t_500\<close>, which is stored.
\<close>

theorem validate_checks_six_options_witness:
  "raises (WatermarkAction_validate base64_utf8
             [js ''watermark'', js ''image_bG9nby5wbmc='', js ''x_5000''])
   \<and> raises (WatermarkAction_validate base64_utf8
             [js ''watermark'', js ''text_5L2g5aW9'', js ''rotate_abc''])
   \<and> validate_param base64_utf8 default_opt (js ''t_500'')
       = Inr (default_opt\<lparr>opt_t := Fin 500\<rparr>)"
proof -
  have A: "raises (WatermarkAction_validate base64_utf8
             [js ''watermark'', js ''image_bG9nby5wbmc='', js ''x_5000''])"
    and C: "validate_param base64_utf8 default_opt (js ''t_500'')
       = Inr (default_opt\<lparr>opt_t := Fin 500\<rparr>)"
    using validate_checks_six_options
          [of "js ''x_5000''" "[js ''watermark'', js ''image_bG9nby5wbmc='', js ''x_5000'']"
              "js ''x''" 0 4096 base64_utf8 "js ''t_500''" default_opt]
    by (simp_all add: token_key_def token_value_def token_number_def claimed_range_def
          out_of_range_def parse_defs)
  have B: "raises (WatermarkAction_validate base64_utf8
             [js ''watermark'', js ''text_5L2g5aW9'', js ''rotate_abc''])"
    using validate_checks_six_options
          [of "js ''rotate_abc''" "[js ''watermark'', js ''text_5L2g5aW9'', js ''rotate_abc'']"
              "js ''rotate''" 0 360 base64_utf8 "js ''t_500''" default_opt]
    by (simp add: token_key_def token_value_def token_number_def parse_defs)
  from A B C show ?thesis by simp
qed

text \<open>
  C3 as stated fails for the opacity: the token \<open>t_500\<close>, far outside \<open>[0,100]\<close>, is
  accepted next to a text, and 500 is what \<open>validate\<close> returns as \<open>t\<close>.
\<close>

theorem validate_accepts_t_500:
  "WatermarkAction_validate base64_utf8 [js ''watermark'', js ''text_5L2g5aW9'', js ''t_500'']
     = Inr (default_opt\<lparr>opt_text := [20320, 22909], opt_t := Fin 500\<rparr>)
   \<and> \<not> raises (WatermarkAction_validate base64_utf8
                 [js ''watermark'', js ''text_5L2g5aW9'', js ''t_500''])"
  by (simp add: validate_defs decode_defs parse_defs)

text \<open>
  C4. The value of the token \<open>x_abc\<close> parses to \<open>NaN\<close>, which is no number of \<open>[0,4096]\<close>,
  and yet \<open>validate\<close> accepts the token and returns \<open>NaN\<close> as \<open>x\<close>: both comparisons of
  the test \<open>opt.x < 0 || opt.x > 4096\<close> are false for \<open>NaN\<close>. The tests for \<open>y\<close>,
  \<open>voffset\<close>, \<open>interval\<close> and \<open>size\<close> are written the same way, and \<open>size_\<close>, whose
  value is empty, is accepted likewise. The test for \<open>rotate\<close> is written the other way
  round, \<open>0 <= rotate && 360 >= rotate\<close>, and \<open>rotate_abc\<close> is rejected.
\<close>

theorem validate_accepts_unparsed_x:
  "WatermarkAction_validate base64_utf8 [js ''watermark'', js ''text_5L2g5aW9'', js ''x_abc'']
     = Inr (default_opt\<lparr>opt_text := [20320, 22909], opt_x := Some NaN\<rparr>)
   \<and> WatermarkAction_validate base64_utf8 [js ''watermark'', js ''text_5L2g5aW9'', js ''size_'']
     = Inr (default_opt\<lparr>opt_text := [20320, 22909], opt_size := NaN\<rparr>)
   \<and> WatermarkAction_validate base64_utf8
        [js ''watermark'', js ''text_5L2g5aW9'', js ''rotate_abc'']
     = Inl (InvalidArgument (range_message ''rotate'' ''between 0 and 360''))"
  by (simp add: validate_defs decode_defs parse_defs)

text \<open>
  C5. With gravity \<open>southeast\<close>, an explicit \<open>x = 10\<close> and an explicit \<open>y = 0\<close> (the options
  that the tokens \<open>g_southeast\<close>, \<open>x_10\<close>, \<open>y_0\<close> validate to), a 200 by 100 background and
  a 50 by 20 mark, \<open>calculateImgPos\<close> flips \<open>x\<close> to \<open>200 - 50 - 10 = 140\<close> but leaves the
  vertical position unresolved: the test \<open>if (opt.y)\<close> takes the accepted value \<open>0\<close> for
  a missing one, where honouring it would give \<open>100 - 20 - 0 = 80\<close>.
\<close>

theorem calculateImgPos_zero_y_dropped:
  "WatermarkAction_validate base64_utf8
       [js ''watermark'', js ''image_bG9nby5wbmc='', js ''g_southeast'', js ''x_10'', js ''y_0'']
     = Inr (default_opt\<lparr>opt_image := js ''logo.png'', opt_g := js ''southeast'',
              opt_x := Some (Fin 10), opt_y := Some (Fin 0)\<rparr>)
   \<and> calculateImgPos
         (default_opt\<lparr>opt_image := js ''logo.png'', opt_g := js ''southeast'',
              opt_x := Some (Fin 10), opt_y := Some (Fin 0)\<rparr>)
         \<lparr>md_width = Some (Fin 200), md_height = Some (Fin 100)\<rparr>
         \<lparr>md_width = Some (Fin 50), md_height = Some (Fin 20)\<rparr>
     = \<lparr>pos_x = Some (Fin 140), pos_y = None\<rparr>"
  by (simp add: validate_defs decode_defs parse_defs gravityConvert_def calculateImgPos_def
        truthy_num_def startsWith_def endsWith_def fsub_def)

text \<open>
  C6. \<open>calculateMixedGravity\<close> produces exactly the table of six pairs of image and text
  gravity: order 0 with align 0, 1, 2 gives northwest/northeast, west/east and
  southwest/southeast; order 1 gives the same pairs swapped. The other options play no
  part.
\<close>

theorem calculateMixedGravity_table:
  "calculateMixedGravity (opt\<lparr>opt_order := Fin 0, opt_align := Fin 0\<rparr>)
      = \<lparr>imgGravity = js ''northwest'', textGravity = js ''northeast''\<rparr>
  \<and> calculateMixedGravity (opt\<lparr>opt_order := Fin 0, opt_align := Fin 1\<rparr>)
      = \<lparr>imgGravity = js ''west'', textGravity = js ''east''\<rparr>
  \<and> calculateMixedGravity (opt\<lparr>opt_order := Fin 0, opt_align := Fin 2\<rparr>)
      = \<lparr>imgGravity = js ''southwest'', textGravity = js ''southeast''\<rparr>
  \<and> calculateMixedGravity (opt\<lparr>opt_order := Fin 1, opt_align := Fin 0\<rparr>)
      = \<lparr>imgGravity = js ''northeast'', textGravity = js ''northwest''\<rparr>
  \<and> calculateMixedGravity (opt\<lparr>opt_order := Fin 1, opt_align := Fin 1\<rparr>)
      = \<lparr>imgGravity = js ''east'', textGravity = js ''west''\<rparr>
  \<and> calculateMixedGravity (opt\<lparr>opt_order := Fin 1, opt_align := Fin 2\<rparr>)
      = \<lparr>imgGravity = js ''southeast'', textGravity = js ''southwest''\<rparr>"
  by (simp add: calculateMixedGravity_def js_eq_def)

text \<open>
  C7. For every text and font size, \<open>calculateTextSize\<close> returns the size the
  specification describes: as width the rounded sum of the margin and of the characters'
  widths, a character costing the font size when its character code exceeds 256, half of
  it when the code exceeds 97 and 0.8 times it otherwise, and as height the rounded
  1.2-fold of the font size. The arithmetic is JavaScript's, and a sum is taken in the
  order of the text. In particular the height is the same for every text.
\<close>

theorem calculateTextSize_formula:
  "calculateTextSize text fontSize = spec_textSize text fontSize
   \<and> height (calculateTextSize text' fontSize) = height (calculateTextSize text fontSize)"
  by (simp add: calculateTextSize_def spec_textSize_def cWidth_loop_char_width
        fadd_commute [of margin])

text \<open>
  C8. For a font size that is not negative: when the font size grows and the text stays,
  neither width nor height of \<open>calculateTextSize\<close> shrinks; and when the text is
  extended at its end and the font size stays, the width does not shrink, whatever the
  classes of the characters added. The order is JavaScript's \<open><=\<close>, so the sizes
  compared are numbers.
\<close>

theorem calculateTextSize_monotone:
  assumes "js_le (Fin 0) f"
  shows "(js_le f g \<longrightarrow>
            js_le (width (calculateTextSize text f)) (width (calculateTextSize text g))
          \<and> js_le (height (calculateTextSize text f)) (height (calculateTextSize text g)))
       \<and> js_le (width (calculateTextSize text f)) (width (calculateTextSize (text @ rest) f))"
proof (intro conjI impI)
  assume fg: "js_le f g"
  have "js_le (foldl fadd (Fin 0) (map (char_width f) (string_iterator text)))
              (foldl fadd (Fin 0) (map (char_width g) (string_iterator text)))"
    using assms fg by (intro foldl_fadd_mono) simp_all
  moreover have "js_le (Fin 0) (foldl fadd (Fin 0) (map (char_width f) (string_iterator text)))"
    using assms by (intro foldl_fadd_grows) simp_all
  ultimately have "js_le (fadd (foldl fadd (Fin 0) (map (char_width f) (string_iterator text))) margin)
              (fadd (foldl fadd (Fin 0) (map (char_width g) (string_iterator text))) margin)"
    by (intro fadd_mono) (simp_all add: margin_def)
  then show "js_le (width (calculateTextSize text f)) (width (calculateTextSize text g))"
    by (simp add: calculateTextSize_def cWidth_loop_char_width Math_round_mono)
next
  assume fg: "js_le f g"
  obtain c where c: "0 < c" "num_lit (12 / 10) = Fin c" using lit_1_2_pos by blast
  show "js_le (height (calculateTextSize text f)) (height (calculateTextSize text g))"
    using assms fg c by (simp add: calculateTextSize_def Math_round_mono fmul_const_mono)
next
  obtain ws where ws: "map (char_width f) (string_iterator (text @ rest))
      = map (char_width f) (string_iterator text) @ map (char_width f) ws"
    using map_char_width_append by blast
  define s where "s = foldl fadd (Fin 0) (map (char_width f) (string_iterator text))"
  have s0: "js_le (Fin 0) s" unfolding s_def using assms by (intro foldl_fadd_grows) simp_all
  have sd: "fadd s (Fin 0) = s"
  proof (cases "string_iterator text" rule: rev_cases)
    case Nil
    then show ?thesis by (simp add: s_def)
  next
    case (snoc vs v)
    then show ?thesis by (simp add: s_def fadd_fadd_zero)
  qed
  have "js_le s (foldl fadd s (map (char_width f) ws))"
    using assms s0 sd by (rule foldl_fadd_grows)
  then have "js_le (fadd s margin) (fadd (foldl fadd s (map (char_width f) ws)) margin)"
    using s0 by (intro fadd_mono) (simp_all add: margin_def)
  then show "js_le (width (calculateTextSize text f)) (width (calculateTextSize (text @ rest) f))"
    by (simp add: calculateTextSize_def cWidth_loop_char_width ws s_def Math_round_mono)
qed

text \<open>
  The theorem at the font sizes 40 and 50 and the text \<open>ab\<close>, extended by the two
  characters of the first scenario.
\<close>

theorem calculateTextSize_monotone_witness:
  "js_le (Fin 0) (Fin 40) \<and> js_le (Fin 40) (Fin 50)
   \<and> js_le (width (calculateTextSize (js ''ab'') (Fin 40)))
            (width (calculateTextSize (js ''ab'') (Fin 50)))
   \<and> js_le (height (calculateTextSize (js ''ab'') (Fin 40)))
            (height (calculateTextSize (js ''ab'') (Fin 50)))
   \<and> js_le (width (calculateTextSize (js ''ab'') (Fin 40)))
            (width (calculateTextSize (js ''ab'' @ [20320, 22909]) (Fin 40)))"
  using calculateTextSize_monotone [of "Fin 40" "Fin 50" "js ''ab''" "[20320, 22909]"]
  by simp

text \<open>
  C9, as the code has it. When the tokens are an action name followed by \<open>gif\<close>, \<open>process\<close>
  succeeds and leaves the image handle, the buffer store and every feature flag but one
  as they were: the flag \<open>AutoWebp\<close> is cleared when it was set, which happens before the
  target is looked at. The engine is not called, so nothing is encoded again.
\<close>

theorem process_gif_clears_only_AutoWebp:
  "FormatAction_process eng ctx [p0, js ''gif'']
     = (Inr (),
        ctx\<lparr>ctx_features :=
              (if ctx_features ctx AutoWebp = Some True
               then (ctx_features ctx)(AutoWebp \<mapsto> False) else ctx_features ctx)\<rparr>)"
  by (simp add: FormatAction_process_def FormatAction_validate_def SUPPORTED_FORMAT_def)

text \<open>
  C9 as stated fails: on a context whose flag \<open>AutoWebp\<close> is set, \<open>process\<close> with target
  \<open>gif\<close> returns a different context, in which the flag is cleared.
\<close>

theorem process_gif_changes_flag:
  "snd (FormatAction_process still_engine negotiating_ctx [js ''format'', js ''gif''])
     \<noteq> negotiating_ctx
   \<and> ctx_features negotiating_ctx AutoWebp = Some True
   \<and> ctx_features
        (snd (FormatAction_process still_engine negotiating_ctx [js ''format'', js ''gif'']))
        AutoWebp = Some False"
proof -
  have after: "ctx_features
        (snd (FormatAction_process still_engine negotiating_ctx [js ''format'', js ''gif'']))
        AutoWebp = Some False"
    by (simp add: FormatAction_process_def FormatAction_validate_def SUPPORTED_FORMAT_def
          negotiating_ctx_def flags_AutoWebp_def)
  have before: "ctx_features negotiating_ctx AutoWebp = Some True"
    by (simp add: negotiating_ctx_def flags_AutoWebp_def)
  from after before show ?thesis by auto
qed

text \<open>
  C10. \<open>calculateMixedGravity\<close> has no failing branch and answers for every pair of
  numbers, \<open>NaN\<close> and the infinities included. Its answer is the one for the order and
  align it falls back to: an order that is not 1 counts as order 0, an align that is
  neither 1 nor 2 as align 0. For these two orders and three aligns the answers are the
  six rows of the table, the row of order 0 and align 0, northwest and northeast, being
  the one every other input falls back to. So the two gravities returned are always the
  west and east anchors of one band, north, middle or south, in either order.
\<close>

theorem calculateMixedGravity_total:
  "calculateMixedGravity opt
     = calculateMixedGravity
         (opt\<lparr>opt_order := (if js_eq (opt_order opt) (Fin 1) then Fin 1 else Fin 0),
              opt_align := (if js_eq (opt_align opt) (Fin 1) then Fin 1
                            else if js_eq (opt_align opt) (Fin 2) then Fin 2 else Fin 0)\<rparr>)
   \<and> calculateMixedGravity (opt'\<lparr>opt_order := Fin 0, opt_align := Fin 0\<rparr>)
       = \<lparr>imgGravity = js ''northwest'', textGravity = js ''northeast''\<rparr>
   \<and> calculateMixedGravity (opt'\<lparr>opt_order := Fin 0, opt_align := Fin 1\<rparr>)
       = \<lparr>imgGravity = js ''west'', textGravity = js ''east''\<rparr>
   \<and> calculateMixedGravity (opt'\<lparr>opt_order := Fin 0, opt_align := Fin 2\<rparr>)
       = \<lparr>imgGravity = js ''southwest'', textGravity = js ''southeast''\<rparr>
   \<and> calculateMixedGravity (opt'\<lparr>opt_order := Fin 1, opt_align := Fin 0\<rparr>)
       = \<lparr>imgGravity = js ''northeast'', textGravity = js ''northwest''\<rparr>
   \<and> calculateMixedGravity (opt'\<lparr>opt_order := Fin 1, opt_align := Fin 1\<rparr>)
       = \<lparr>imgGravity = js ''east'', textGravity = js ''west''\<rparr>
   \<and> calculateMixedGravity (opt'\<lparr>opt_order := Fin 1, opt_align := Fin 2\<rparr>)
       = \<lparr>imgGravity = js ''southeast'', textGravity = js ''southwest''\<rparr>
   \<and> (\<exists>band. band \<in> {js ''north'', [], js ''south''}
        \<and> ((imgGravity (calculateMixedGravity opt) = band @ js ''west''
             \<and> textGravity (calculateMixedGravity opt) = band @ js ''east'')
          \<or> (imgGravity (calculateMixedGravity opt) = band @ js ''east''
             \<and> textGravity (calculateMixedGravity opt) = band @ js ''west'')))"
proof -
  have norm: "calculateMixedGravity opt
     = calculateMixedGravity
         (opt\<lparr>opt_order := (if js_eq (opt_order opt) (Fin 1) then Fin 1 else Fin 0),
              opt_align := (if js_eq (opt_align opt) (Fin 1) then Fin 1
                            else if js_eq (opt_align opt) (Fin 2) then Fin 2 else Fin 0)\<rparr>)"
    by (simp add: calculateMixedGravity_def js_eq_def)
  have rows: "calculateMixedGravity (opt'\<lparr>opt_order := Fin 0, opt_align := Fin 0\<rparr>)
       = \<lparr>imgGravity = js ''northwest'', textGravity = js ''northeast''\<rparr>"
    "calculateMixedGravity (opt'\<lparr>opt_order := Fin 0, opt_align := Fin 1\<rparr>)
       = \<lparr>imgGravity = js ''west'', textGravity = js ''east''\<rparr>"
    "calculateMixedGravity (opt'\<lparr>opt_order := Fin 0, opt_align := Fin 2\<rparr>)
       = \<lparr>imgGravity = js ''southwest'', textGravity = js ''southeast''\<rparr>"
    "calculateMixedGravity (opt'\<lparr>opt_order := Fin 1, opt_align := Fin 0\<rparr>)
       = \<lparr>imgGravity = js ''northeast'', textGravity = js ''northwest''\<rparr>"
    "calculateMixedGravity (opt'\<lparr>opt_order := Fin 1, opt_align := Fin 1\<rparr>)
       = \<lparr>imgGravity = js ''east'', textGravity = js ''west''\<rparr>"
    "calculateMixedGravity (opt'\<lparr>opt_order := Fin 1, opt_align := Fin 2\<rparr>)
       = \<lparr>imgGravity = js ''southeast'', textGravity = js ''southwest''\<rparr>"
    by (simp_all add: calculateMixedGravity_def js_eq_def)
  consider "js_eq (opt_align opt) (Fin 1)"
    | "\<not> js_eq (opt_align opt) (Fin 1)" "js_eq (opt_align opt) (Fin 2)"
    | "\<not> js_eq (opt_align opt) (Fin 1)" "\<not> js_eq (opt_align opt) (Fin 2)" by blast
  then have shape: "\<exists>band. band \<in> {js ''north'', [], js ''south''}
        \<and> ((imgGravity (calculateMixedGravity opt) = band @ js ''west''
             \<and> textGravity (calculateMixedGravity opt) = band @ js ''east'')
          \<or> (imgGravity (calculateMixedGravity opt) = band @ js ''east''
             \<and> textGravity (calculateMixedGravity opt) = band @ js ''west''))"
  proof cases
    case 1
    then show ?thesis by (intro exI [of _ "[]"]) (simp add: calculateMixedGravity_def)
  next
    case 2
    then show ?thesis by (intro exI [of _ "js ''south''"]) (simp add: calculateMixedGravity_def)
  next
    case 3
    then show ?thesis by (intro exI [of _ "js ''north''"]) (simp add: calculateMixedGravity_def)
  qed
  from norm rows shape show ?thesis by (intro conjI)
qed

text \<open>
  The theorem at an order of 7 with an align that is \<open>NaN\<close>, which fall back to the row
  of northwest and northeast, and at order 1 with an align of \<open>-3\<close>, which falls back to
  northeast and northwest.
\<close>

theorem calculateMixedGravity_total_witness:
  "calculateMixedGravity (default_opt\<lparr>opt_order := Fin 7, opt_align := NaN\<rparr>)
     = \<lparr>imgGravity = js ''northwest'', textGravity = js ''northeast''\<rparr>
   \<and> calculateMixedGravity (default_opt\<lparr>opt_order := Fin 1, opt_align := Fin (- 3)\<rparr>)
     = \<lparr>imgGravity = js ''northeast'', textGravity = js ''northwest''\<rparr>"
  using calculateMixedGravity_total
          [of "default_opt\<lparr>opt_order := Fin 7, opt_align := NaN\<rparr>" default_opt]
        calculateMixedGravity_total
          [of "default_opt\<lparr>opt_order := Fin 1, opt_align := Fin (- 3)\<rparr>" default_opt]
  by (simp add: js_eq_def)

end
